theory Spec2Isabelle
  imports Complex_Main "HOL-Library.Word"
begin

section \<open>Values\<close>

text \<open>
  A C++ floating point value (\<^verbatim>\<open>float\<close> or \<^verbatim>\<open>double\<close>): a finite number or one of the
  special values. Only finiteness and the value of exactly representable decimals
  matter below; rounding to the binary format is not modelled.
\<close>

datatype cfloat = Num real | PlusInf | MinusInf | NaN

text \<open>\<^verbatim>\<open>std::isfinite\<close>\<close>

fun isfinite :: "cfloat \<Rightarrow> bool" where
  "isfinite (Num _) = True"
| "isfinite PlusInf = False"
| "isfinite MinusInf = False"
| "isfinite NaN = False"

section \<open>Point clouds\<close>

text \<open>
  \<^verbatim>\<open>pcl::PointXYZ\<close>, \<^verbatim>\<open>Point\<close> (coordinates and intensity) and \<^verbatim>\<open>PointAllFields\<close>.
  In a \<^verbatim>\<open>PointAllFields\<close> built member by member, a member the code never assigns
  is \<open>None\<close> (its C++ value is indeterminate).
\<close>

record PointXYZ =
  x :: cfloat
  y :: cfloat
  z :: cfloat

record Point = PointXYZ +
  intensity :: cfloat

record PointAllFields =
  x :: cfloat
  y :: cfloat
  z :: cfloat
  intensity :: "cfloat option"
  time_offset_us :: "int option"

record Header =
  h_seq :: nat
  h_stamp :: nat
  h_frame_id :: string

text \<open>\<^verbatim>\<open>pcl::PointCloud<PointT>\<close>: a header and the points in order.\<close>

record 'p PointCloud =
  header :: Header
  points :: "'p list"

type_synonym Pointcloud = "Point PointCloud"
type_synonym LoaderPointcloud = "PointAllFields PointCloud"

text \<open>
  \<^verbatim>\<open>sensor_msgs::PointCloud2\<close>: the header, the declared fields and the point buffer.
  The buffer is kept as its rows; a row holds the value the decoder reads for each
  member a point type may ask for.
\<close>

record PointField =
  name :: string

record Row =
  row_x :: cfloat
  row_y :: cfloat
  row_z :: cfloat
  row_intensity :: cfloat
  row_time_offset_us :: int

record PointCloud2 =
  header :: Header
  msg_fields :: "PointField list"
  msg_data :: "Row list"

text \<open>
  \<^verbatim>\<open>pcl::fromROSMsg\<close> at the three point types the loader uses. It is library code: the
  cloud is resized to the number of rows of the message and every row is decoded into one
  point, whatever the cloud held before.
\<close>

definition fromROSMsg_PointAllFields :: "PointCloud2 \<Rightarrow> LoaderPointcloud" where
  "fromROSMsg_PointAllFields msg =
     \<lparr>PointCloud.header = PointCloud2.header msg,
      points = map (\<lambda>r. \<lparr>PointAllFields.x = row_x r, y = row_y r, z = row_z r,
                           intensity = Some (row_intensity r),
                           time_offset_us = Some (row_time_offset_us r)\<rparr>) (msg_data msg)\<rparr>"

definition fromROSMsg_Point :: "PointCloud2 \<Rightarrow> Pointcloud" where
  "fromROSMsg_Point msg =
     \<lparr>PointCloud.header = PointCloud2.header msg,
      points = map (\<lambda>r. \<lparr>PointXYZ.x = row_x r, y = row_y r, z = row_z r,
                           Point.intensity = row_intensity r\<rparr>) (msg_data msg)\<rparr>"

definition fromROSMsg_PointXYZ :: "PointCloud2 \<Rightarrow> PointXYZ PointCloud" where
  "fromROSMsg_PointXYZ msg =
     \<lparr>PointCloud.header = PointCloud2.header msg,
      points = map (\<lambda>r. \<lparr>PointXYZ.x = row_x r, y = row_y r, z = row_z r\<rparr>) (msg_data msg)\<rparr>"

definition push_back :: "'p \<Rightarrow> 'p PointCloud \<Rightarrow> 'p PointCloud" where
  "push_back p pc = pc\<lparr>points := points pc @ [p]\<rparr>"

subsection \<open>\<^verbatim>\<open>Loader::parsePointcloudMsg\<close>\<close>

text \<open>The loop over \<^verbatim>\<open>msg.fields\<close>, on the pair \<open>(has_timing, has_intensity)\<close>.\<close>

fun scan_fields :: "PointField list \<Rightarrow> bool \<times> bool \<Rightarrow> bool \<times> bool" where
  "scan_fields [] (has_timing, has_intensity) = (has_timing, has_intensity)"
| "scan_fields (field # rest) (has_timing, has_intensity) =
     (if name field = ''time_offset_us'' then scan_fields rest (True, has_intensity)
      else if name field = ''intensity'' then scan_fields rest (has_timing, True)
      else scan_fields rest (has_timing, has_intensity))"

text \<open>The loop of the intensity branch: \<^verbatim>\<open>continue\<close> skips the \<^verbatim>\<open>push_back\<close>.\<close>

fun copy_intensity_points :: "Point list \<Rightarrow> LoaderPointcloud \<Rightarrow> LoaderPointcloud" where
  "copy_intensity_points [] pointcloud = pointcloud"
| "copy_intensity_points (raw_point # rest) pointcloud =
     (let px = PointXYZ.x raw_point; py = PointXYZ.y raw_point; pz = PointXYZ.z raw_point;
          pin = Point.intensity raw_point
      in if \<not> isfinite px \<or> \<not> isfinite py \<or> \<not> isfinite pz \<or> \<not> isfinite pin
         then copy_intensity_points rest pointcloud
         else copy_intensity_points rest
                (push_back \<lparr>PointAllFields.x = px, y = py, z = pz, intensity = Some pin,
                             time_offset_us = None\<rparr> pointcloud))"

text \<open>The loop of the last branch, on bare coordinates.\<close>

fun copy_xyz_points :: "PointXYZ list \<Rightarrow> LoaderPointcloud \<Rightarrow> LoaderPointcloud" where
  "copy_xyz_points [] pointcloud = pointcloud"
| "copy_xyz_points (raw_point # rest) pointcloud =
     (let px = PointXYZ.x raw_point; py = PointXYZ.y raw_point; pz = PointXYZ.z raw_point
      in if \<not> isfinite px \<or> \<not> isfinite py \<or> \<not> isfinite pz
         then copy_xyz_points rest pointcloud
         else copy_xyz_points rest
                (push_back \<lparr>PointAllFields.x = px, y = py, z = pz, intensity = None,
                             time_offset_us = None\<rparr> pointcloud))"

text \<open>
  The cloud behind the \<^verbatim>\<open>pointcloud\<close> pointer is passed in and returned: the first branch
  overwrites it, the other two append to it and then set its header.
\<close>

definition parsePointcloudMsg :: "PointCloud2 \<Rightarrow> LoaderPointcloud \<Rightarrow> LoaderPointcloud" where
  "parsePointcloudMsg msg pointcloud =
     (case scan_fields (msg_fields msg) (False, False) of
        (has_timing, has_intensity) \<Rightarrow>
          if has_timing then fromROSMsg_PointAllFields msg
          else if has_intensity then
            (let raw_pointcloud = fromROSMsg_Point msg
             in (copy_intensity_points (points raw_pointcloud) pointcloud)
                  \<lparr>PointCloud.header := PointCloud.header raw_pointcloud\<rparr>)
          else
            (let raw_pointcloud = fromROSMsg_PointXYZ msg
             in (copy_xyz_points (points raw_pointcloud) pointcloud)
                  \<lparr>PointCloud.header := PointCloud.header raw_pointcloud\<rparr>))"

text \<open>The default constructed cloud the loader hands to \<^verbatim>\<open>parsePointcloudMsg\<close>.\<close>

definition new_LoaderPointcloud :: LoaderPointcloud where
  "new_LoaderPointcloud = \<lparr>PointCloud.header = \<lparr>h_seq = 0, h_stamp = 0, h_frame_id = []\<rparr>, points = []\<rparr>"

text \<open>What the message declares, read off its field names.\<close>

definition declares :: "PointCloud2 \<Rightarrow> string \<Rightarrow> bool" where
  "declares msg n = (n \<in> set (map name (msg_fields msg)))"

text \<open>
  A row whose required members are not all finite: the coordinates, and the intensity
  when the message declares one.
\<close>

definition row_nonfinite :: "PointCloud2 \<Rightarrow> Row \<Rightarrow> bool" where
  "row_nonfinite msg r =
     (\<not> isfinite (row_x r) \<or> \<not> isfinite (row_y r) \<or> \<not> isfinite (row_z r) \<or>
      (declares msg ''intensity'' \<and> \<not> isfinite (row_intensity r)))"

text \<open>A point of the output carries the coordinates (and the intensity, if declared) of a row.\<close>

definition point_of_row :: "PointCloud2 \<Rightarrow> PointAllFields \<Rightarrow> Row \<Rightarrow> bool" where
  "point_of_row msg p r =
     (PointAllFields.x p = row_x r \<and> PointAllFields.y p = row_y r \<and>
      PointAllFields.z p = row_z r \<and>
      (declares msg ''intensity'' \<longrightarrow> PointAllFields.intensity p = Some (row_intensity r)))"

text \<open>
  The points a call puts into the cloud: what lies behind the points the cloud held
  before. (The loader calls on an empty cloud, so there these are all of them.)
\<close>

definition appended_points :: "PointCloud2 \<Rightarrow> LoaderPointcloud \<Rightarrow> PointAllFields list" where
  "appended_points msg pointcloud =
     drop (length (points pointcloud)) (points (parsePointcloudMsg msg pointcloud))"

text \<open>Every member the message claims is finite in the point.\<close>

definition point_finite :: "PointCloud2 \<Rightarrow> PointAllFields \<Rightarrow> bool" where
  "point_finite msg p =
     (isfinite (PointAllFields.x p) \<and> isfinite (PointAllFields.y p) \<and>
      isfinite (PointAllFields.z p) \<and>
      (declares msg ''intensity'' \<longrightarrow>
         (case PointAllFields.intensity p of Some v \<Rightarrow> isfinite v | None \<Rightarrow> False)))"

section \<open>The scan accumulator and the point cloud loader\<close>

text \<open>
  Modelled from the spec: the scan accumulator (class \<^verbatim>\<open>Lidar\<close>, whose source is not part
  of the loader). Its state is the ordered sequence of accepted clouds and the running
  total of points.
\<close>

record Lidar =
  scans :: "LoaderPointcloud list"
  total_points :: nat

text \<open>
  Modelled from the spec: \<^verbatim>\<open>Lidar::addPointcloud\<close> appends the cloud and adds its point count
  to the running total; it always succeeds. The scan configuration is handed through.
\<close>

definition addPointcloud :: "LoaderPointcloud \<Rightarrow> 'c \<Rightarrow> Lidar \<Rightarrow> Lidar" where
  "addPointcloud pointcloud scan_config lidar =
     lidar\<lparr>scans := scans lidar @ [pointcloud],
           total_points := total_points lidar + length (points pointcloud)\<rparr>"

text \<open>Modelled from the spec: \<^verbatim>\<open>Lidar::getNumberOfScans\<close>, a pure query (a \<^verbatim>\<open>size_t\<close>).\<close>

definition getNumberOfScans :: "Lidar \<Rightarrow> nat" where
  "getNumberOfScans lidar = length (scans lidar)"

text \<open>Modelled from the spec: \<^verbatim>\<open>Lidar::getTotalPoints\<close>, a pure query.\<close>

definition getTotalPoints :: "Lidar \<Rightarrow> nat" where
  "getTotalPoints lidar = total_points lidar"

definition empty_Lidar :: Lidar where
  "empty_Lidar = \<lparr>scans = [], total_points = 0\<rparr>"

text \<open>
  \<^verbatim>\<open>Loader::Config\<close>, declared in the loader's header. The cap is read with
  \<^verbatim>\<open>NodeHandle::param\<close>, whose only integer type is \<^verbatim>\<open>int\<close>: a signed 32-bit value.
\<close>

record Config =
  use_n_scans :: "32 word"

text \<open>
  The comparison \<^verbatim>\<open>getNumberOfScans() >= config_.use_n_scans\<close> is between a \<^verbatim>\<open>size_t\<close> and
  an \<^verbatim>\<open>int\<close>: the \<^verbatim>\<open>int\<close> is sign-extended to 64 bits and read as unsigned.
\<close>

definition size_t_of_int :: "32 word \<Rightarrow> nat" where
  "size_t_of_int k = unat (scast k :: 64 word)"

text \<open>
  A bag is the sequence of its messages; a path that cannot be opened is \<open>None\<close>, and
  \<^verbatim>\<open>bag.open\<close> throws there.
\<close>

datatype exn = BagException | invalid_argument | out_of_range

record PoseStamped =
  stamp_sec :: "32 word"
  stamp_nsec :: "32 word"
  position_x :: cfloat
  position_y :: cfloat
  position_z :: cfloat
  orientation_x :: cfloat
  orientation_y :: cfloat
  orientation_z :: cfloat
  orientation_w :: cfloat

datatype MessageInstance =
    PointCloud2_msg PointCloud2
  | PoseStamped_msg PoseStamped
  | Other_msg string

type_synonym Bag = "MessageInstance list"

definition bag_open :: "Bag option \<Rightarrow> exn + Bag" where
  "bag_open bag_path = (case bag_path of None \<Rightarrow> Inl BagException | Some bag \<Rightarrow> Inr bag)"

text \<open>
  \<^verbatim>\<open>rosbag::View\<close> with the type query \<^verbatim>\<open>sensor_msgs/PointCloud2\<close>, each message
  instantiated.
\<close>

fun view_PointCloud2 :: "Bag \<Rightarrow> PointCloud2 list" where
  "view_PointCloud2 [] = []"
| "view_PointCloud2 (PointCloud2_msg m # bag) = m # view_PointCloud2 bag"
| "view_PointCloud2 (_ # bag) = view_PointCloud2 bag"

text \<open>
  The loop of \<^verbatim>\<open>loadPointcloudFromROSBag\<close>: parse into a fresh cloud, add it, then test the
  cap and \<^verbatim>\<open>break\<close>.
\<close>

fun pointcloud_loop :: "Config \<Rightarrow> 'c \<Rightarrow> PointCloud2 list \<Rightarrow> Lidar \<Rightarrow> Lidar" where
  "pointcloud_loop config scan_config [] lidar = lidar"
| "pointcloud_loop config scan_config (m # view) lidar =
     (let pointcloud = parsePointcloudMsg m new_LoaderPointcloud;
          lidar' = addPointcloud pointcloud scan_config lidar
      in if getNumberOfScans lidar' \<ge> size_t_of_int (use_n_scans config) then lidar'
         else pointcloud_loop config scan_config view lidar')"

text \<open>The same loop, recording the accumulator after each \<^verbatim>\<open>addPointcloud\<close>.\<close>

fun pointcloud_loop_states :: "Config \<Rightarrow> 'c \<Rightarrow> PointCloud2 list \<Rightarrow> Lidar \<Rightarrow> Lidar list" where
  "pointcloud_loop_states config scan_config [] lidar = []"
| "pointcloud_loop_states config scan_config (m # view) lidar =
     (let pointcloud = parsePointcloudMsg m new_LoaderPointcloud;
          lidar' = addPointcloud pointcloud scan_config lidar
      in if getNumberOfScans lidar' \<ge> size_t_of_int (use_n_scans config) then [lidar']
         else lidar' # pointcloud_loop_states config scan_config view lidar')"

text \<open>The result is the return value and the accumulator behind the \<^verbatim>\<open>lidar\<close> pointer.\<close>

definition loadPointcloudFromROSBag ::
    "Config \<Rightarrow> Bag option \<Rightarrow> 'c \<Rightarrow> Lidar \<Rightarrow> bool \<times> Lidar" where
  "loadPointcloudFromROSBag config bag_path scan_config lidar =
     (case bag_open bag_path of
        Inl e \<Rightarrow> (False, lidar)
      | Inr bag \<Rightarrow>
          (let lidar' = pointcloud_loop config scan_config (view_PointCloud2 bag) lidar
           in if getTotalPoints lidar' = 0 then (False, lidar') else (True, lidar')))"

section \<open>Transforms and the transform accumulator\<close>

text \<open>
  Modelled from the spec: a rigid transform (class \<^verbatim>\<open>Transform\<close>, whose source is not part
  of the loader) is a translation vector and a rotation quaternion in w, x, y, z order,
  stored as constructed.
\<close>

record Translation =
  t_x :: cfloat
  t_y :: cfloat
  t_z :: cfloat

record Rotation =
  q_w :: cfloat
  q_x :: cfloat
  q_y :: cfloat
  q_z :: cfloat

record Transform =
  translation :: Translation
  rotation :: Rotation

text \<open>
  \<^verbatim>\<open>Timestamp\<close> is a signed 64-bit count of microseconds; the loader computes it in
  \<^verbatim>\<open>long long\<close>.
\<close>

type_synonym Timestamp = int

text \<open>
  Modelled from the spec: the transform accumulator (class \<^verbatim>\<open>Odom\<close>, whose source is not
  part of the loader) keeps the inserted pairs in insertion order.
\<close>

record Odom =
  odom_data :: "(Timestamp \<times> Transform) list"

text \<open>Modelled from the spec: \<^verbatim>\<open>Odom::addTransformData\<close> inserts the pair; always succeeds.\<close>

definition addTransformData :: "Timestamp \<Rightarrow> Transform \<Rightarrow> Odom \<Rightarrow> Odom" where
  "addTransformData stamp T odom = odom\<lparr>odom_data := odom_data odom @ [(stamp, T)]\<rparr>"

text \<open>Modelled from the spec: \<^verbatim>\<open>Odom::empty\<close> is true iff no pair has been inserted.\<close>

definition odom_empty :: "Odom \<Rightarrow> bool" where
  "odom_empty odom = (odom_data odom = [])"

definition empty_Odom :: Odom where
  "empty_Odom = \<lparr>odom_data = []\<rparr>"

subsection \<open>\<^verbatim>\<open>Loader::loadTformFromROSBag\<close>\<close>

text \<open>A value of \<^verbatim>\<open>long long\<close> arithmetic, wrapped to 64 bits two's complement.\<close>

definition int64 :: "int \<Rightarrow> int" where
  "int64 v = (v + 2 ^ 63) mod 2 ^ 64 - 2 ^ 63"

text \<open>C++ integer division truncates towards zero.\<close>

definition cdiv :: "int \<Rightarrow> int \<Rightarrow> int" where
  "cdiv a b = (if (a < 0) = (b < 0) then \<bar>a\<bar> div \<bar>b\<bar> else - (\<bar>a\<bar> div \<bar>b\<bar>))"

text \<open>
  \<^verbatim>\<open>stamp.sec * 1000000ll + stamp.nsec / 1000ll\<close>: both members are \<^verbatim>\<open>uint32_t\<close>, converted
  to \<^verbatim>\<open>long long\<close> by the operands \<^verbatim>\<open>1000000ll\<close> and \<^verbatim>\<open>1000ll\<close>.
\<close>

definition pose_stamp :: "PoseStamped \<Rightarrow> Timestamp" where
  "pose_stamp transform_msg =
     int64 (int64 (uint (stamp_sec transform_msg) * 1000000) +
            cdiv (uint (stamp_nsec transform_msg)) 1000)"

definition pose_transform :: "PoseStamped \<Rightarrow> Transform" where
  "pose_transform transform_msg =
     \<lparr>translation = \<lparr>t_x = position_x transform_msg, t_y = position_y transform_msg,
                      t_z = position_z transform_msg\<rparr>,
      rotation = \<lparr>q_w = orientation_w transform_msg, q_x = orientation_x transform_msg,
                   q_y = orientation_y transform_msg, q_z = orientation_z transform_msg\<rparr>\<rparr>"

fun view_PoseStamped :: "Bag \<Rightarrow> PoseStamped list" where
  "view_PoseStamped [] = []"
| "view_PoseStamped (PoseStamped_msg m # bag) = m # view_PoseStamped bag"
| "view_PoseStamped (_ # bag) = view_PoseStamped bag"

fun tform_loop :: "PoseStamped list \<Rightarrow> Odom \<Rightarrow> Odom" where
  "tform_loop [] odom = odom"
| "tform_loop (transform_msg # view) odom =
     tform_loop view
       (addTransformData (pose_stamp transform_msg) (pose_transform transform_msg) odom)"

definition loadTformFromROSBag :: "Bag option \<Rightarrow> Odom \<Rightarrow> bool \<times> Odom" where
  "loadTformFromROSBag bag_path odom =
     (case bag_open bag_path of
        Inl e \<Rightarrow> (False, odom)
      | Inr bag \<Rightarrow>
          (let odom' = tform_loop (view_PoseStamped bag) odom
           in if odom_empty odom' then (False, odom') else (True, odom')))"

section \<open>The delimited-text source\<close>

text \<open>
  An input stream: its \<^verbatim>\<open>eofbit\<close> and \<^verbatim>\<open>failbit\<close> and the characters not yet read.
\<close>

record istream =
  eofbit :: bool
  failbit :: bool
  buf :: string

definition stringstream :: "string \<Rightarrow> istream" where
  "stringstream s = \<lparr>eofbit = False, failbit = False, buf = s\<rparr>"

text \<open>
  \<^verbatim>\<open>std::ifstream file(csv_path)\<close>: a path that cannot be opened (\<open>None\<close>) leaves the
  stream with \<^verbatim>\<open>failbit\<close> set and nothing to read.
\<close>

definition ifstream :: "string option \<Rightarrow> istream" where
  "ifstream csv_path =
     (case csv_path of
        None \<Rightarrow> \<lparr>eofbit = False, failbit = True, buf = []\<rparr>
      | Some s \<Rightarrow> stringstream s)"

text \<open>\<^verbatim>\<open>peek()\<close>: \<open>None\<close> is \<^verbatim>\<open>EOF\<close>, returned also when the stream is not good.\<close>

definition peek :: "istream \<Rightarrow> char option" where
  "peek str =
     (if eofbit str \<or> failbit str then None
      else case buf str of [] \<Rightarrow> None | c # _ \<Rightarrow> Some c)"

text \<open>
  \<^verbatim>\<open>std::getline(str, line, delim)\<close>. On a stream that is not good it sets \<^verbatim>\<open>failbit\<close> and
  leaves the string alone. Otherwise it reads up to the delimiter, which it consumes and
  does not store; running into the end sets \<^verbatim>\<open>eofbit\<close>, and \<^verbatim>\<open>failbit\<close> too when nothing at
  all was read.
\<close>

definition getline :: "char \<Rightarrow> istream \<Rightarrow> string \<Rightarrow> istream \<times> string" where
  "getline delim str line =
     (if eofbit str \<or> failbit str then (str\<lparr>failbit := True\<rparr>, line)
      else if buf str = [] then (str\<lparr>eofbit := True, failbit := True\<rparr>, [])
      else if delim \<in> set (buf str)
        then (str\<lparr>buf := tl (dropWhile (\<lambda>c. c \<noteq> delim) (buf str))\<rparr>,
              takeWhile (\<lambda>c. c \<noteq> delim) (buf str))
        else (str\<lparr>eofbit := True, buf := []\<rparr>, buf str))"

text \<open>
  \<^verbatim>\<open>while (std::getline(line_stream, cell, ',')) data.push_back(cell);\<close>
\<close>

function split_cells :: "istream \<Rightarrow> string \<Rightarrow> string list \<Rightarrow> string list" where
  "split_cells line_stream cell data =
     (case getline (CHR '','') line_stream cell of
        (line_stream', cell') \<Rightarrow>
          if failbit line_stream' then data
          else split_cells line_stream' cell' (data @ [cell']))"
  by pat_completeness auto
termination
proof (relation "measure (\<lambda>(line_stream, cell, data). length (buf line_stream))")
  show "wf (measure (\<lambda>(line_stream, cell, data). length (buf line_stream)))"
    by simp
next
  fix line_stream :: istream and cell :: string and data :: "string list"
    and line_stream' :: istream and cell' :: string
  assume p: "(line_stream', cell') = getline (CHR '','') line_stream cell"
    and ok: "\<not> failbit line_stream'"
  let ?b = "buf line_stream"
  have shorter: "length (dropWhile (\<lambda>c. c \<noteq> CHR '','') ?b) - Suc 0 < length ?b" if "?b \<noteq> []"
  proof -
    from that have "0 < length ?b" by simp
    moreover have "length (dropWhile (\<lambda>c. c \<noteq> CHR '','') ?b) \<le> length ?b"
      by (rule length_dropWhile_le)
    ultimately show ?thesis by arith
  qed
  from p have "line_stream' = fst (getline (CHR '','') line_stream cell)"
    by (metis fst_conv)
  with ok shorter have "length (buf line_stream') < length ?b"
    by (simp add: getline_def split: if_splits)
  then show "((line_stream', cell', data @ [cell']), (line_stream, cell, data))
      \<in> measure (\<lambda>(line_stream, cell, data). length (buf line_stream))"
    by simp
qed

declare split_cells.simps [simp del]

subsection \<open>\<^verbatim>\<open>std::stoll\<close> and \<^verbatim>\<open>std::stod\<close>\<close>

definition isspace :: "char \<Rightarrow> bool" where
  "isspace c = (c \<in> set [CHR '' '', CHR 0x09, CHR 0x0A, CHR 0x0B, CHR 0x0C, CHR 0x0D])"

definition isdigit :: "char \<Rightarrow> bool" where
  "isdigit c = (c \<in> set ''0123456789'')"

definition digit_value :: "char \<Rightarrow> nat" where
  "digit_value c = of_char c - 48"

definition digits_value :: "string \<Rightarrow> nat" where
  "digits_value ds = foldl (\<lambda>acc c. 10 * acc + digit_value c) 0 ds"

text \<open>An optional sign: whether it was a minus, and what follows it.\<close>

definition take_sign :: "string \<Rightarrow> bool \<times> string" where
  "take_sign s =
     (case s of
        [] \<Rightarrow> (False, [])
      | c # r \<Rightarrow> if c = CHR ''-'' then (True, r)
                 else if c = CHR ''+'' then (False, r) else (False, s))"

text \<open>
  \<^verbatim>\<open>std::stoll(str)\<close>, base 10: leading white space, an optional sign, then digits; what
  follows the digits is ignored. No digit at all throws \<^verbatim>\<open>std::invalid_argument\<close>, a value
  outside \<^verbatim>\<open>long long\<close> throws \<^verbatim>\<open>std::out_of_range\<close>.
\<close>

definition stoll :: "string \<Rightarrow> exn + int" where
  "stoll str =
     (case take_sign (dropWhile isspace str) of
        (neg, s) \<Rightarrow>
          (let ds = takeWhile isdigit s
           in if ds = [] then Inl invalid_argument
              else (let v = (if neg then - int (digits_value ds) else int (digits_value ds))
                    in if v < - (2 ^ 63) \<or> 2 ^ 63 \<le> v then Inl out_of_range else Inr v)))"

text \<open>
  Does the string start with a word, each letter of which is given in its two cases?
\<close>

fun starts_with :: "string list \<Rightarrow> string \<Rightarrow> bool" where
  "starts_with [] s = True"
| "starts_with (l # ls) [] = False"
| "starts_with (l # ls) (c # cs) = (c \<in> set l \<and> starts_with ls cs)"

definition isxdigit :: "char \<Rightarrow> bool" where
  "isxdigit c = (c \<in> set ''0123456789abcdefABCDEF'')"

definition xdigit_value :: "char \<Rightarrow> nat" where
  "xdigit_value c =
     (if isdigit c then of_char c - 48
      else if c \<in> set ''abcdef'' then of_char c - 87
      else of_char c - 55)"

definition xdigits_value :: "string \<Rightarrow> nat" where
  "xdigits_value ds = foldl (\<lambda>acc c. 16 * acc + xdigit_value c) 0 ds"

text \<open>
  Digits, an optional point, digits: the digits before the point, those after it, and
  what follows the number.
\<close>

definition split_number :: "(char \<Rightarrow> bool) \<Rightarrow> string \<Rightarrow> string \<times> string \<times> string" where
  "split_number digit s =
     (let ip = takeWhile digit s;
          s1 = dropWhile digit s;
          has_point = (case s1 of [] \<Rightarrow> False | c # _ \<Rightarrow> c = CHR ''.'')
      in (ip,
          if has_point then takeWhile digit (tl s1) else [],
          if has_point then dropWhile digit (tl s1) else s1))"

text \<open>
  The exponent behind a number: the letter (\<^verbatim>\<open>e\<close> or \<^verbatim>\<open>p\<close>, given in its two cases), an
  optional sign and decimal digits. Without a digit there is no exponent.
\<close>

definition exponent_part :: "string \<Rightarrow> string \<Rightarrow> int" where
  "exponent_part letter s =
     (case s of
        [] \<Rightarrow> 0
      | c # r \<Rightarrow>
          if c \<in> set letter then
            (case take_sign r of
               (neg, r') \<Rightarrow>
                 (let ds = takeWhile isdigit r'
                  in if ds = [] then 0
                     else if neg then - int (digits_value ds) else int (digits_value ds)))
          else 0)"

definition scale :: "real \<Rightarrow> int \<Rightarrow> real" where
  "scale b e = (if 0 \<le> e then b ^ nat e else 1 / b ^ nat (- e))"

text \<open>The exact value of the decimal number at the head of the string, if there is one.\<close>

definition decimal_value :: "string \<Rightarrow> real option" where
  "decimal_value s =
     (case split_number isdigit s of
        (ip, fp, s2) \<Rightarrow>
          if ip = [] \<and> fp = [] then None
          else Some (real (digits_value (ip @ fp)) *
                     scale 10 (exponent_part ''eE'' s2 - int (length fp))))"

text \<open>The same for the hexadecimal number behind a prefix \<^verbatim>\<open>0x\<close>; its exponent is binary.\<close>

definition hexadecimal_value :: "string \<Rightarrow> real option" where
  "hexadecimal_value s =
     (case split_number isxdigit s of
        (ip, fp, s2) \<Rightarrow>
          if ip = [] \<and> fp = [] then None
          else Some (real (xdigits_value (ip @ fp)) *
                     scale 2 (exponent_part ''pP'' s2 - 4 * int (length fp))))"

definition has_hex_prefix :: "string \<Rightarrow> bool" where
  "has_hex_prefix s =
     (case s of
        c0 # c1 # _ \<Rightarrow> c0 = CHR ''0'' \<and> (c1 = CHR ''x'' \<or> c1 = CHR ''X'')
      | _ \<Rightarrow> False)"

text \<open>
  A prefix \<^verbatim>\<open>0x\<close> with no hexadecimal number behind it is the decimal number \<^verbatim>\<open>0\<close>.
\<close>

definition number_value :: "string \<Rightarrow> real option" where
  "number_value s =
     (if has_hex_prefix s then
        (case hexadecimal_value (drop 2 s) of
           Some v \<Rightarrow> Some v
         | None \<Rightarrow> decimal_value s)
      else decimal_value s)"

text \<open>
  The range test of \<^verbatim>\<open>strtod\<close>, on the magnitude \<open>m\<close> of the exact value. Rounding to
  nearest gives infinity from \<open>2 ^ 1024 - 2 ^ 970\<close> on, half a unit in the last place above
  the largest \<^verbatim>\<open>double\<close>: that is the overflow, which sets \<^verbatim>\<open>ERANGE\<close>. Whether an underflow
  sets it is left to the C library: glibc (on x86-64, where tininess is detected after
  rounding) sets it when the result is below the least normal \<^verbatim>\<open>double\<close> \<open>2 ^ - 1022\<close> and
  is not exact, that is, when \<open>m\<close> does not round up to \<open>2 ^ - 1022\<close> and is no multiple of
  \<open>2 ^ - 1074\<close>. \<^verbatim>\<open>std::stod\<close> throws \<^verbatim>\<open>std::out_of_range\<close> on \<^verbatim>\<open>ERANGE\<close>. Otherwise the value is
  kept as it is: rounding it to the nearest \<^verbatim>\<open>double\<close> is not modelled.
\<close>

definition to_double :: "bool \<Rightarrow> real \<Rightarrow> exn + cfloat" where
  "to_double neg m =
     (if m = 0 then Inr (Num 0)
      else if 2 ^ 1024 - 2 ^ 970 \<le> m then Inl out_of_range
      else if m < 1 / 2 ^ 1022 - 1 / 2 ^ 1076 \<and> frac (m * 2 ^ 1074) \<noteq> 0 then Inl out_of_range
      else Inr (Num (if neg then - m else m)))"

text \<open>
  \<^verbatim>\<open>std::stod(str)\<close>: leading white space, an optional sign, then \<^verbatim>\<open>inf\<close> or \<^verbatim>\<open>nan\<close>, or a
  hexadecimal or decimal number with an optional point and an optional exponent; what
  follows is ignored. No number throws \<^verbatim>\<open>std::invalid_argument\<close>, a range error throws
  \<^verbatim>\<open>std::out_of_range\<close>.
\<close>

definition stod :: "string \<Rightarrow> exn + cfloat" where
  "stod str =
     (case take_sign (dropWhile isspace str) of
        (neg, s) \<Rightarrow>
          if starts_with [''iI'', ''nN'', ''fF''] s then Inr (if neg then MinusInf else PlusInf)
          else if starts_with [''nN'', ''aA'', ''nN''] s then Inr NaN
          else (case number_value s of
                  None \<Rightarrow> Inl invalid_argument
                | Some m \<Rightarrow> to_double neg m))"

subsection \<open>\<^verbatim>\<open>Loader::getNextCSVTransform\<close>\<close>

text \<open>\<^verbatim>\<open>line[0] == '#'\<close>; on an empty string \<^verbatim>\<open>line[0]\<close> is the terminating null.\<close>

definition is_comment :: "string \<Rightarrow> bool" where
  "is_comment line = (case line of [] \<Rightarrow> False | c # _ \<Rightarrow> c = CHR ''#'')"

abbreviation (input) col_TIME :: nat where "col_TIME \<equiv> 0"
abbreviation (input) col_X :: nat where "col_X \<equiv> 2"
abbreviation (input) col_Y :: nat where "col_Y \<equiv> 3"
abbreviation (input) col_Z :: nat where "col_Z \<equiv> 4"
abbreviation (input) col_RW :: nat where "col_RW \<equiv> 5"
abbreviation (input) col_RX :: nat where "col_RX \<equiv> 6"
abbreviation (input) col_RY :: nat where "col_RY \<equiv> 7"
abbreviation (input) col_RZ :: nat where "col_RZ \<equiv> 8"

text \<open>
  The two assignments at the end of the function, on at least nine cells. The locations
  behind \<^verbatim>\<open>stamp\<close> and \<^verbatim>\<open>T\<close> are passed in and returned, also when a conversion throws:
  \<^verbatim>\<open>*stamp\<close> is assigned before the first \<^verbatim>\<open>stod\<close> runs, \<^verbatim>\<open>*T\<close> after the last. (C++ leaves
  the order of the seven \<^verbatim>\<open>stod\<close> calls open; they are taken left to right here, which
  decides only which of two exceptions is seen.)
\<close>

definition cells_to_transform ::
    "string list \<Rightarrow> Timestamp \<Rightarrow> Transform \<Rightarrow>
     (exn \<times> Timestamp \<times> Transform) + (Timestamp \<times> Transform)" where
  "cells_to_transform data stamp T =
     (case stoll (data ! col_TIME) of
        Inl e \<Rightarrow> Inl (e, stamp, T)
      | Inr t \<Rightarrow>
     (let stamp' = cdiv t 1000 in
      case stod (data ! col_X) of Inl e \<Rightarrow> Inl (e, stamp', T) | Inr vx \<Rightarrow>
      case stod (data ! col_Y) of Inl e \<Rightarrow> Inl (e, stamp', T) | Inr vy \<Rightarrow>
      case stod (data ! col_Z) of Inl e \<Rightarrow> Inl (e, stamp', T) | Inr vz \<Rightarrow>
      case stod (data ! col_RW) of Inl e \<Rightarrow> Inl (e, stamp', T) | Inr rw \<Rightarrow>
      case stod (data ! col_RX) of Inl e \<Rightarrow> Inl (e, stamp', T) | Inr rx \<Rightarrow>
      case stod (data ! col_RY) of Inl e \<Rightarrow> Inl (e, stamp', T) | Inr ry \<Rightarrow>
      case stod (data ! col_RZ) of Inl e \<Rightarrow> Inl (e, stamp', T) | Inr rz \<Rightarrow>
        Inr (stamp', \<lparr>translation = \<lparr>t_x = vx, t_y = vy, t_z = vz\<rparr>,
                      rotation = \<lparr>q_w = rw, q_x = rx, q_y = ry, q_z = rz\<rparr>\<rparr>)))"

text \<open>
  A required numeric column does not convert: \<^verbatim>\<open>stoll\<close> throws on the time stamp column
  or \<^verbatim>\<open>stod\<close> throws on one of the seven pose columns.
\<close>

definition unparsable :: "string list \<Rightarrow> bool" where
  "unparsable data =
     (isl (stoll (data ! col_TIME)) \<or>
      list_ex (\<lambda>i. isl (stod (data ! i))) [col_X, col_Y, col_Z, col_RW, col_RX, col_RY, col_RZ])"

text \<open>
  The fields of a line as a reader of the CSV counts them: the texts between its commas,
  so that a line with \<open>n\<close> commas has \<open>n + 1\<close> fields, the last of them possibly empty.
  (The code's cells are the list of \<open>split_cells\<close>.)
\<close>

fun spec_fields :: "string \<Rightarrow> string list" where
  "spec_fields [] = [[]]"
| "spec_fields (c # cs) =
     (if c = CHR '','' then [] # spec_fields cs
      else (case spec_fields cs of
              [] \<Rightarrow> [[c]]
            | f # fs \<Rightarrow> (c # f) # fs))"

text \<open>
  A cell with no number in it: behind white space and a sign it is empty, or starts with
  a character that begins neither a number nor \<^verbatim>\<open>inf\<close> nor \<^verbatim>\<open>nan\<close>.
\<close>

definition no_number :: "string \<Rightarrow> bool" where
  "no_number cell =
     (case snd (take_sign (dropWhile isspace cell)) of
        [] \<Rightarrow> True
      | c # _ \<Rightarrow> \<not> isdigit c \<and> c \<notin> set ''.iInN'')"

text \<open>
  The result is \<open>Inr\<close> of the return value and \<open>Inl\<close> of the exception, each with the
  stream and the two output locations as the call leaves them.
\<close>

definition getNextCSVTransform ::
    "istream \<Rightarrow> Timestamp \<Rightarrow> Transform \<Rightarrow>
     (exn \<times> istream \<times> Timestamp \<times> Transform) + (bool \<times> istream \<times> Timestamp \<times> Transform)" where
  "getNextCSVTransform str stamp T =
     (case getline (CHR 0x0A) str [] of
        (str', line) \<Rightarrow>
          if is_comment line then Inr (False, str', stamp, T)
          else
            (let data = split_cells (stringstream line) [] []
             in if length data < 9 then Inr (False, str', stamp, T)
                else (case cells_to_transform data stamp T of
                        Inl (e, stamp', T') \<Rightarrow> Inl (e, str', stamp', T')
                      | Inr (stamp', T') \<Rightarrow> Inr (True, str', stamp', T'))))"

subsection \<open>\<^verbatim>\<open>Loader::loadTformFromMaplabCSV\<close>\<close>

text \<open>
  The loop \<^verbatim>\<open>while (file.peek() != EOF)\<close>. The locals \<^verbatim>\<open>stamp\<close> and \<^verbatim>\<open>T\<close> are declared
  afresh in every round; \<open>stamp0\<close> and \<open>T0\<close> stand for what they hold before the call
  (\<^verbatim>\<open>stamp\<close> is not initialised). An exception leaves the loop with the accumulator as it
  is by then.
\<close>

function csv_loop ::
    "Timestamp \<Rightarrow> Transform \<Rightarrow> istream \<Rightarrow> Odom \<Rightarrow> (exn \<times> Odom) + Odom" where
  "csv_loop stamp0 T0 file odom =
     (if peek file = None then Inr odom
      else (case getNextCSVTransform file stamp0 T0 of
              Inl (e, file', stamp, T) \<Rightarrow> Inl (e, odom)
            | Inr (ok, file', stamp, T) \<Rightarrow>
                csv_loop stamp0 T0 file'
                  (if ok then addTransformData stamp T odom else odom)))"
  by pat_completeness auto
termination
proof (relation "measure (\<lambda>(stamp0, T0, file, odom). length (buf file))")
  show "wf (measure (\<lambda>(stamp0, T0, file, odom). length (buf file)))"
    by simp
next
  fix stamp0 :: Timestamp and T0 :: Transform and str :: istream and odom :: Odom
    and r :: "bool \<times> istream \<times> Timestamp \<times> Transform"
    and ok :: bool and r1 :: "istream \<times> Timestamp \<times> Transform"
    and str' :: istream and r2 :: "Timestamp \<times> Transform"
    and stamp :: Timestamp and T :: Transform
  assume pk: "peek str \<noteq> None"
    and g: "getNextCSVTransform str stamp0 T0 = Inr r"
    and r: "(ok, r1) = r" and r1: "(str', r2) = r1" and r2: "(stamp, T) = r2"
  let ?b = "buf str"
  from pk have good: "\<not> eofbit str" "\<not> failbit str" "?b \<noteq> []"
    by (auto simp: peek_def split: if_splits list.splits)
  have shorter: "length (dropWhile (\<lambda>c. c \<noteq> CHR 0x0A) ?b) - Suc 0 < length ?b"
  proof -
    from good have "0 < length ?b" by simp
    moreover have "length (dropWhile (\<lambda>c. c \<noteq> CHR 0x0A) ?b) \<le> length ?b"
      by (rule length_dropWhile_le)
    ultimately show ?thesis by arith
  qed
  from g r r1 have "str' = fst (getline (CHR 0x0A) str [])"
    by (auto simp: getNextCSVTransform_def Let_def split: prod.splits if_splits sum.splits)
  with good shorter have "length (buf str') < length ?b"
    by (simp add: getline_def)
  then show "((stamp0, T0, str', if ok then addTransformData stamp T odom else odom),
              (stamp0, T0, str, odom))
      \<in> measure (\<lambda>(stamp0, T0, file, odom). length (buf file))"
    by simp
qed

declare csv_loop.simps [simp del]

text \<open>
  The stream is opened and never tested; the function has the one \<^verbatim>\<open>return true\<close>.
\<close>

definition loadTformFromMaplabCSV ::
    "Timestamp \<Rightarrow> Transform \<Rightarrow> string option \<Rightarrow> Odom \<Rightarrow> (exn \<times> Odom) + (bool \<times> Odom)" where
  "loadTformFromMaplabCSV stamp0 T0 csv_path odom =
     (case csv_loop stamp0 T0 (ifstream csv_path) odom of
        Inl e \<Rightarrow> Inl e
      | Inr odom' \<Rightarrow> Inr (True, odom'))"

section \<open>Example inputs\<close>

definition timed_msg :: PointCloud2 where
  "timed_msg =
     \<lparr>PointCloud2.header = \<lparr>h_seq = 1, h_stamp = 2, h_frame_id = ''lidar''\<rparr>,
      msg_fields = [\<lparr>name = ''x''\<rparr>, \<lparr>name = ''y''\<rparr>, \<lparr>name = ''z''\<rparr>,
                    \<lparr>name = ''time_offset_us''\<rparr>],
      msg_data = [\<lparr>row_x = NaN, row_y = Num 1, row_z = PlusInf, row_intensity = Num 0,
                    row_time_offset_us = 5\<rparr>,
                  \<lparr>row_x = Num 1, row_y = Num 2, row_z = Num 3, row_intensity = NaN,
                    row_time_offset_us = 9\<rparr>]\<rparr>"

definition intensity_msg :: PointCloud2 where
  "intensity_msg =
     \<lparr>PointCloud2.header = \<lparr>h_seq = 1, h_stamp = 2, h_frame_id = ''lidar''\<rparr>,
      msg_fields = [\<lparr>name = ''x''\<rparr>, \<lparr>name = ''y''\<rparr>, \<lparr>name = ''z''\<rparr>,
                    \<lparr>name = ''intensity''\<rparr>],
      msg_data = [\<lparr>row_x = Num 1, row_y = Num 2, row_z = Num 3, row_intensity = NaN,
                    row_time_offset_us = 0\<rparr>,
                  \<lparr>row_x = Num 4, row_y = Num 5, row_z = Num 6, row_intensity = Num 7,
                    row_time_offset_us = 0\<rparr>,
                  \<lparr>row_x = Num 1, row_y = MinusInf, row_z = Num 3, row_intensity = Num 7,
                    row_time_offset_us = 0\<rparr>]\<rparr>"

text \<open>The line of the CSV example and the transform it stands for.\<close>

definition sample_line :: string where
  "sample_line = ''1000000,0,1.0,2.0,3.0,1.0,0.0,0.0,0.0''"

definition sample_Transform :: Transform where
  "sample_Transform =
     \<lparr>translation = \<lparr>t_x = Num 1, t_y = Num 2, t_z = Num 3\<rparr>,
      rotation = \<lparr>q_w = Num 1, q_x = Num 0, q_y = Num 0, q_z = Num 0\<rparr>\<rparr>"

definition identity_Transform :: Transform where
  "identity_Transform =
     \<lparr>translation = \<lparr>t_x = Num 0, t_y = Num 0, t_z = Num 0\<rparr>,
      rotation = \<lparr>q_w = Num 1, q_x = Num 0, q_y = Num 0, q_z = Num 0\<rparr>\<rparr>"

section \<open>The schema detector\<close>

lemma scan_fields_timing:
  "fst (scan_fields fs (t, i)) = (t \<or> ''time_offset_us'' \<in> set (map name fs))"
  by (induction fs arbitrary: t i) auto

lemma scan_fields_intensity:
  "snd (scan_fields fs (t, i)) = (i \<or> ''intensity'' \<in> set (map name fs))"
  by (induction fs arbitrary: t i) auto

lemma scan_fields_eq:
  "scan_fields (msg_fields msg) (False, False) = (declares msg ''time_offset_us'', declares msg ''intensity'')"
  using scan_fields_timing [of "msg_fields msg" False False]
    scan_fields_intensity [of "msg_fields msg" False False]
  by (simp add: declares_def prod_eq_iff)

lemma parse_timing:
  "declares msg ''time_offset_us'' \<Longrightarrow> parsePointcloudMsg msg pc = fromROSMsg_PointAllFields msg"
  by (simp add: parsePointcloudMsg_def scan_fields_eq)

lemma copy_intensity_points_eq:
  "points (copy_intensity_points (map (\<lambda>r. \<lparr>PointXYZ.x = row_x r, y = row_y r, z = row_z r,
                           Point.intensity = row_intensity r\<rparr>) rs) pc) =
   points pc @ map (\<lambda>r. \<lparr>PointAllFields.x = row_x r, y = row_y r, z = row_z r,
                           intensity = Some (row_intensity r), time_offset_us = None\<rparr>)
     (filter (\<lambda>r. isfinite (row_x r) \<and> isfinite (row_y r) \<and> isfinite (row_z r) \<and> isfinite (row_intensity r)) rs)"
  by (induction rs arbitrary: pc) (auto simp: push_back_def Let_def)

lemma copy_xyz_points_eq:
  "points (copy_xyz_points (map (\<lambda>r. \<lparr>PointXYZ.x = row_x r, y = row_y r, z = row_z r\<rparr>) rs) pc) =
   points pc @ map (\<lambda>r. \<lparr>PointAllFields.x = row_x r, y = row_y r, z = row_z r,
                           intensity = None, time_offset_us = None\<rparr>)
     (filter (\<lambda>r. isfinite (row_x r) \<and> isfinite (row_y r) \<and> isfinite (row_z r)) rs)"
  by (induction rs arbitrary: pc) (auto simp: push_back_def Let_def)

text \<open>
  Claim C1. A message that declares the field \<^verbatim>\<open>time_offset_us\<close> is decoded directly:
  the result is the cloud of \<^verbatim>\<open>pcl::fromROSMsg\<close>, it holds as many points as the message
  has rows, and the point at each position carries the values of the row at that
  position, finite or not. Nothing is filtered.
\<close>

theorem timing_path_keeps_every_point:
  assumes "declares msg ''time_offset_us''"
  shows "parsePointcloudMsg msg pointcloud = fromROSMsg_PointAllFields msg \<and>
         length (points (parsePointcloudMsg msg pointcloud)) = length (msg_data msg) \<and>
         (\<forall>i < length (msg_data msg).
            PointAllFields.x (points (parsePointcloudMsg msg pointcloud) ! i) = row_x (msg_data msg ! i) \<and>
            PointAllFields.y (points (parsePointcloudMsg msg pointcloud) ! i) = row_y (msg_data msg ! i) \<and>
            PointAllFields.z (points (parsePointcloudMsg msg pointcloud) ! i) = row_z (msg_data msg ! i) \<and>
            PointAllFields.intensity (points (parsePointcloudMsg msg pointcloud) ! i) =
              Some (row_intensity (msg_data msg ! i)) \<and>
            PointAllFields.time_offset_us (points (parsePointcloudMsg msg pointcloud) ! i) =
              Some (row_time_offset_us (msg_data msg ! i)))"
  using assms by (simp add: parse_timing fromROSMsg_PointAllFields_def)

theorem timing_path_keeps_every_point_witness:
  "declares timed_msg ''time_offset_us'' \<and>
   length (points (parsePointcloudMsg timed_msg new_LoaderPointcloud)) = 2 \<and>
   PointAllFields.x (points (parsePointcloudMsg timed_msg new_LoaderPointcloud) ! 0) = NaN \<and>
   PointAllFields.z (points (parsePointcloudMsg timed_msg new_LoaderPointcloud) ! 0) = PlusInf \<and>
   PointAllFields.intensity (points (parsePointcloudMsg timed_msg new_LoaderPointcloud) ! 1) = Some NaN"
proof -
  have d: "declares timed_msg ''time_offset_us''"
    by (simp add: declares_def timed_msg_def)
  have n: "msg_data timed_msg ! 0 = \<lparr>row_x = NaN, row_y = Num 1, row_z = PlusInf, row_intensity = Num 0, row_time_offset_us = 5\<rparr>"
       "msg_data timed_msg ! 1 = \<lparr>row_x = Num 1, row_y = Num 2, row_z = Num 3, row_intensity = NaN, row_time_offset_us = 9\<rparr>"
       "length (msg_data timed_msg) = 2"
    by (simp_all add: timed_msg_def)
  let ?out = "points (parsePointcloudMsg timed_msg new_LoaderPointcloud)"
  from timing_path_keeps_every_point [OF d, of new_LoaderPointcloud]
  have len: "length ?out = length (msg_data timed_msg)"
    and at: "\<forall>i < length (msg_data timed_msg).
      PointAllFields.x (?out ! i) = row_x (msg_data timed_msg ! i) \<and>
      PointAllFields.y (?out ! i) = row_y (msg_data timed_msg ! i) \<and>
      PointAllFields.z (?out ! i) = row_z (msg_data timed_msg ! i) \<and>
      PointAllFields.intensity (?out ! i) = Some (row_intensity (msg_data timed_msg ! i)) \<and>
      PointAllFields.time_offset_us (?out ! i) = Some (row_time_offset_us (msg_data timed_msg ! i))"
    by blast+
  from at n(3) have a0: "PointAllFields.x (?out ! 0) = row_x (msg_data timed_msg ! 0)"
    and b0: "PointAllFields.z (?out ! 0) = row_z (msg_data timed_msg ! 0)"
    and c1: "PointAllFields.intensity (?out ! 1) = Some (row_intensity (msg_data timed_msg ! 1))"
    by simp_all
  from d len a0 b0 c1 n show ?thesis
    by simp
qed

lemma parse_intensity:
  assumes "\<not> declares msg ''time_offset_us''" "declares msg ''intensity''"
  shows "points (parsePointcloudMsg msg pc) =
     points pc @ map (\<lambda>r. \<lparr>PointAllFields.x = row_x r, y = row_y r, z = row_z r,
                           intensity = Some (row_intensity r), time_offset_us = None\<rparr>)
     (filter (\<lambda>r. isfinite (row_x r) \<and> isfinite (row_y r) \<and> isfinite (row_z r) \<and> isfinite (row_intensity r)) (msg_data msg))"
  using assms
  by (simp add: parsePointcloudMsg_def scan_fields_eq fromROSMsg_Point_def copy_intensity_points_eq)

lemma parse_xyz:
  assumes "\<not> declares msg ''time_offset_us''" "\<not> declares msg ''intensity''"
  shows "points (parsePointcloudMsg msg pc) =
     points pc @ map (\<lambda>r. \<lparr>PointAllFields.x = row_x r, y = row_y r, z = row_z r,
                           intensity = None, time_offset_us = None\<rparr>)
     (filter (\<lambda>r. isfinite (row_x r) \<and> isfinite (row_y r) \<and> isfinite (row_z r)) (msg_data msg))"
  using assms
  by (simp add: parsePointcloudMsg_def scan_fields_eq fromROSMsg_PointXYZ_def copy_xyz_points_eq)

text \<open>
  Claim C2. For a message without the field \<^verbatim>\<open>time_offset_us\<close>, every point the call puts
  into the cloud has finite coordinates, and a finite intensity when the message declares
  one; no such point carries the values of a row with a non-finite required member; and
  there are at most as many of them as rows. The call appends to the cloud it is given,
  so on the loader's empty cloud these points are the whole output.
\<close>

theorem filtered_paths_keep_only_finite_points:
  assumes "\<not> declares msg ''time_offset_us''"
  shows "points (parsePointcloudMsg msg pointcloud) =
           points pointcloud @ appended_points msg pointcloud \<and>
         (\<forall>p \<in> set (appended_points msg pointcloud). point_finite msg p) \<and>
         (\<forall>r \<in> set (msg_data msg). row_nonfinite msg r \<longrightarrow>
            (\<forall>p \<in> set (appended_points msg pointcloud). \<not> point_of_row msg p r)) \<and>
         length (appended_points msg pointcloud) \<le> length (msg_data msg)"
proof (cases "declares msg ''intensity''")
  case True
  note eq = parse_intensity [OF assms True, of pointcloud]
  have app: "appended_points msg pointcloud =
     map (\<lambda>r. \<lparr>PointAllFields.x = row_x r, y = row_y r, z = row_z r,
                           intensity = Some (row_intensity r), time_offset_us = None\<rparr>)
     (filter (\<lambda>r. isfinite (row_x r) \<and> isfinite (row_y r) \<and> isfinite (row_z r) \<and> isfinite (row_intensity r)) (msg_data msg))"
    by (simp add: appended_points_def eq)
  have fin: "\<forall>p \<in> set (appended_points msg pointcloud). point_finite msg p"
    by (auto simp: app point_finite_def)
  have absent: "\<forall>r \<in> set (msg_data msg). row_nonfinite msg r \<longrightarrow>
            (\<forall>p \<in> set (appended_points msg pointcloud). \<not> point_of_row msg p r)"
    using True by (auto simp: app row_nonfinite_def point_of_row_def)
  have len: "length (appended_points msg pointcloud) \<le> length (msg_data msg)"
    by (simp add: app)
  from eq app fin absent len show ?thesis by simp
next
  case False
  note eq = parse_xyz [OF assms False, of pointcloud]
  have app: "appended_points msg pointcloud =
     map (\<lambda>r. \<lparr>PointAllFields.x = row_x r, y = row_y r, z = row_z r,
                           intensity = None, time_offset_us = None\<rparr>)
     (filter (\<lambda>r. isfinite (row_x r) \<and> isfinite (row_y r) \<and> isfinite (row_z r)) (msg_data msg))"
    by (simp add: appended_points_def eq)
  have fin: "\<forall>p \<in> set (appended_points msg pointcloud). point_finite msg p"
    using False by (auto simp: app point_finite_def)
  have absent: "\<forall>r \<in> set (msg_data msg). row_nonfinite msg r \<longrightarrow>
            (\<forall>p \<in> set (appended_points msg pointcloud). \<not> point_of_row msg p r)"
    using False by (auto simp: app row_nonfinite_def point_of_row_def)
  have len: "length (appended_points msg pointcloud) \<le> length (msg_data msg)"
    by (simp add: app)
  from eq app fin absent len show ?thesis by simp
qed


lemma intensity_msg_output:
  "points (parsePointcloudMsg intensity_msg new_LoaderPointcloud) =
     [\<lparr>PointAllFields.x = Num 4, y = Num 5, z = Num 6, intensity = Some (Num 7),
       time_offset_us = None\<rparr>]"
  by (simp add: parsePointcloudMsg_def intensity_msg_def new_LoaderPointcloud_def
      fromROSMsg_Point_def push_back_def Let_def)

theorem filtered_paths_keep_only_finite_points_witness:
  "\<not> declares intensity_msg ''time_offset_us'' \<and>
   points (parsePointcloudMsg intensity_msg new_LoaderPointcloud) =
     [\<lparr>PointAllFields.x = Num 4, y = Num 5, z = Num 6, intensity = Some (Num 7),
       time_offset_us = None\<rparr>] \<and>
   point_finite intensity_msg
     (hd (points (parsePointcloudMsg intensity_msg new_LoaderPointcloud))) \<and>
   row_nonfinite intensity_msg (msg_data intensity_msg ! 0) \<and>
   \<not> point_of_row intensity_msg
       (hd (points (parsePointcloudMsg intensity_msg new_LoaderPointcloud)))
       (msg_data intensity_msg ! 0) \<and>
   length (points (parsePointcloudMsg intensity_msg new_LoaderPointcloud)) \<le>
     length (msg_data intensity_msg)"
proof -
  have h: "\<not> declares intensity_msg ''time_offset_us''"
    by (simp add: declares_def intensity_msg_def)
  have out: "appended_points intensity_msg new_LoaderPointcloud =
     points (parsePointcloudMsg intensity_msg new_LoaderPointcloud)"
    by (simp add: appended_points_def new_LoaderPointcloud_def)
  have r0: "msg_data intensity_msg ! 0 \<in> set (msg_data intensity_msg)"
    by (simp add: intensity_msg_def)
  have nf: "row_nonfinite intensity_msg (msg_data intensity_msg ! 0)"
    by (simp add: row_nonfinite_def intensity_msg_def declares_def)
  have mem: "hd (points (parsePointcloudMsg intensity_msg new_LoaderPointcloud)) \<in>
      set (appended_points intensity_msg new_LoaderPointcloud)"
    by (simp add: out intensity_msg_output)
  from filtered_paths_keep_only_finite_points [OF h, of new_LoaderPointcloud]
  have fin: "\<forall>p \<in> set (appended_points intensity_msg new_LoaderPointcloud).
               point_finite intensity_msg p"
    and absent: "\<forall>r \<in> set (msg_data intensity_msg). row_nonfinite intensity_msg r \<longrightarrow>
            (\<forall>p \<in> set (appended_points intensity_msg new_LoaderPointcloud).
               \<not> point_of_row intensity_msg p r)"
    and len: "length (appended_points intensity_msg new_LoaderPointcloud) \<le>
               length (msg_data intensity_msg)"
    by blast+
  from fin mem have c1: "point_finite intensity_msg
     (hd (points (parsePointcloudMsg intensity_msg new_LoaderPointcloud)))" by blast
  from absent r0 nf mem have c2: "\<not> point_of_row intensity_msg
       (hd (points (parsePointcloudMsg intensity_msg new_LoaderPointcloud)))
       (msg_data intensity_msg ! 0)" by blast
  from len have c3: "length (points (parsePointcloudMsg intensity_msg new_LoaderPointcloud)) \<le>
     length (msg_data intensity_msg)" by (simp add: out)
  from h intensity_msg_output c1 nf c2 c3 show ?thesis by simp
qed

section \<open>The scan cap\<close>

lemma size_t_of_int_nonneg:
  assumes "0 \<le> sint k"
  shows "size_t_of_int k = nat (sint k)"
proof -
  have "sint k < 2 ^ (LENGTH(32) - 1)"
    by (rule sint_lt)
  also have "\<dots> < (2 :: int) ^ 64"
    by simp
  finally have "sint k mod 2 ^ 64 = sint k"
    using assms by (intro mod_pos_pos_trivial)
  moreover have "uint (scast k :: 64 word) = sint k mod 2 ^ LENGTH(64)"
    unfolding scast_eq by (rule uint_word_of_int)
  ultimately have "uint (scast k :: 64 word) = sint k"
    by simp
  then show ?thesis
    by (simp only: size_t_of_int_def unat_eq_nat_uint)
qed

lemma getNumberOfScans_addPointcloud:
  "getNumberOfScans (addPointcloud pointcloud scan_config lidar) = Suc (getNumberOfScans lidar)"
  by (simp add: getNumberOfScans_def addPointcloud_def)

lemma pointcloud_loop_last:
  "pointcloud_loop config scan_config view lidar =
     last (lidar # pointcloud_loop_states config scan_config view lidar)"
  by (induction view arbitrary: lidar) (simp_all add: Let_def)

lemma pointcloud_loop_count:
  assumes "getNumberOfScans lidar < size_t_of_int (use_n_scans config)"
  shows "getNumberOfScans (pointcloud_loop config scan_config view lidar) =
           min (size_t_of_int (use_n_scans config)) (getNumberOfScans lidar + length view)"
  using assms
proof (induction view arbitrary: lidar)
  case Nil
  then show ?case by simp
next
  case (Cons m view)
  let ?l = "addPointcloud (parsePointcloudMsg m new_LoaderPointcloud) scan_config lidar"
  have n: "getNumberOfScans ?l = Suc (getNumberOfScans lidar)"
    by (rule getNumberOfScans_addPointcloud)
  show ?case
  proof (cases "size_t_of_int (use_n_scans config) \<le> getNumberOfScans ?l")
    case True
    with Cons.prems n show ?thesis by (simp add: Let_def)
  next
    case False
    then have "getNumberOfScans ?l < size_t_of_int (use_n_scans config)" by simp
    from Cons.IH [OF this] False n show ?thesis by (simp add: Let_def)
  qed
qed

lemma pointcloud_loop_states_bound:
  assumes "getNumberOfScans lidar < size_t_of_int (use_n_scans config)"
  shows "\<forall>l \<in> set (pointcloud_loop_states config scan_config view lidar).
           getNumberOfScans l \<le> size_t_of_int (use_n_scans config)"
  using assms
proof (induction view arbitrary: lidar)
  case Nil
  then show ?case by simp
next
  case (Cons m view)
  let ?l = "addPointcloud (parsePointcloudMsg m new_LoaderPointcloud) scan_config lidar"
  have n: "getNumberOfScans ?l = Suc (getNumberOfScans lidar)"
    by (rule getNumberOfScans_addPointcloud)
  show ?case
  proof (cases "size_t_of_int (use_n_scans config) \<le> getNumberOfScans ?l")
    case True
    with Cons.prems n show ?thesis by (simp add: Let_def)
  next
    case False
    then have lt: "getNumberOfScans ?l < size_t_of_int (use_n_scans config)" by simp
    from Cons.IH [OF lt] False lt show ?thesis by (simp add: Let_def)
  qed
qed

text \<open>
  Claim C3, as the code has it. The cap is tested after the scan has been added, so it
  bounds the count only when it is at least 1: for a cap \<open>K \<ge> 1\<close>, an accumulator that
  starts empty and a bag with more than \<open>K\<close> point cloud messages, the load ends with
  exactly \<open>K\<close> scans, and no state of the accumulator during the load holds more.
\<close>

theorem cap_reached_exactly_when_positive:
  assumes "0 < sint (use_n_scans config)"
    and "getNumberOfScans lidar = 0"
    and "nat (sint (use_n_scans config)) < length (view_PointCloud2 bag)"
  shows "getNumberOfScans (snd (loadPointcloudFromROSBag config (Some bag) scan_config lidar)) =
           nat (sint (use_n_scans config)) \<and>
         snd (loadPointcloudFromROSBag config (Some bag) scan_config lidar) =
           last (lidar # pointcloud_loop_states config scan_config (view_PointCloud2 bag) lidar) \<and>
         (\<forall>l \<in> set (lidar # pointcloud_loop_states config scan_config (view_PointCloud2 bag) lidar).
            getNumberOfScans l \<le> nat (sint (use_n_scans config)))"
proof -
  from assms(1) have k: "size_t_of_int (use_n_scans config) = nat (sint (use_n_scans config))"
    by (simp add: size_t_of_int_nonneg)
  from assms(1,2) have lt: "getNumberOfScans lidar < size_t_of_int (use_n_scans config)"
    by (simp add: k)
  have res: "snd (loadPointcloudFromROSBag config (Some bag) scan_config lidar) =
      pointcloud_loop config scan_config (view_PointCloud2 bag) lidar"
    by (simp add: loadPointcloudFromROSBag_def bag_open_def Let_def)
  have c1: "getNumberOfScans (pointcloud_loop config scan_config (view_PointCloud2 bag) lidar) =
      nat (sint (use_n_scans config))"
    using pointcloud_loop_count [OF lt, of scan_config "view_PointCloud2 bag"] assms(2,3)
    by (simp add: k)
  have c3: "\<forall>l \<in> set (pointcloud_loop_states config scan_config (view_PointCloud2 bag) lidar).
      getNumberOfScans l \<le> nat (sint (use_n_scans config))"
    using pointcloud_loop_states_bound [OF lt, of scan_config "view_PointCloud2 bag"]
    by (simp add: k)
  from c1 c3 assms(2) show ?thesis
    by (simp add: res pointcloud_loop_last)
qed

theorem cap_reached_exactly_when_positive_witness:
  "0 < sint (use_n_scans \<lparr>use_n_scans = 1\<rparr>) \<and>
   getNumberOfScans empty_Lidar = 0 \<and>
   nat (sint (use_n_scans \<lparr>use_n_scans = 1\<rparr>)) <
     length (view_PointCloud2 [PointCloud2_msg timed_msg, Other_msg ''tf'', PointCloud2_msg intensity_msg]) \<and>
   getNumberOfScans (snd (loadPointcloudFromROSBag \<lparr>use_n_scans = 1\<rparr>
      (Some [PointCloud2_msg timed_msg, Other_msg ''tf'', PointCloud2_msg intensity_msg]) () empty_Lidar)) = 1"
proof -
  have h1: "0 < sint (use_n_scans \<lparr>use_n_scans = 1\<rparr>)" by simp
  have h2: "getNumberOfScans empty_Lidar = 0" by (simp add: getNumberOfScans_def empty_Lidar_def)
  have h3: "nat (sint (use_n_scans \<lparr>use_n_scans = 1\<rparr>)) <
     length (view_PointCloud2 [PointCloud2_msg timed_msg, Other_msg ''tf'', PointCloud2_msg intensity_msg])"
    by simp
  from cap_reached_exactly_when_positive [OF h1 h2 h3, of "()"]
  have "getNumberOfScans (snd (loadPointcloudFromROSBag \<lparr>use_n_scans = 1\<rparr>
      (Some [PointCloud2_msg timed_msg, Other_msg ''tf'', PointCloud2_msg intensity_msg]) () empty_Lidar)) =
      nat (sint (use_n_scans \<lparr>use_n_scans = 1\<rparr>))"
    by (rule conjunct1)
  then have c: "getNumberOfScans (snd (loadPointcloudFromROSBag \<lparr>use_n_scans = 1\<rparr>
      (Some [PointCloud2_msg timed_msg, Other_msg ''tf'', PointCloud2_msg intensity_msg]) () empty_Lidar)) = 1"
    by simp
  from h1 h2 h3 c show ?thesis by (intro conjI)
qed

text \<open>
  Claim C3 as stated fails at the cap 0: a bag with one point cloud message holds more
  than 0 messages, and the load into an empty accumulator ends with 1 scan, not 0.
\<close>

theorem cap_zero_still_adds_one_scan:
  "sint (use_n_scans \<lparr>use_n_scans = 0\<rparr>) = 0 \<and>
   length (view_PointCloud2 [PointCloud2_msg timed_msg]) = 1 \<and>
   getNumberOfScans empty_Lidar = 0 \<and>
   getNumberOfScans (snd (loadPointcloudFromROSBag \<lparr>use_n_scans = 0\<rparr>
      (Some [PointCloud2_msg timed_msg]) () empty_Lidar)) = 1"
proof -
  have z: "size_t_of_int 0 = 0"
    using size_t_of_int_nonneg [of 0] by simp
  have e: "getNumberOfScans empty_Lidar = 0"
    by (simp add: getNumberOfScans_def empty_Lidar_def)
  have "getNumberOfScans (pointcloud_loop \<lparr>use_n_scans = 0\<rparr> () [timed_msg] empty_Lidar) = 1"
    by (simp add: Let_def z getNumberOfScans_addPointcloud e)
  then show ?thesis
    by (simp add: loadPointcloudFromROSBag_def bag_open_def Let_def e)
qed

section \<open>Time stamps of pose messages\<close>

lemma int64_in_range:
  assumes "- (2 ^ 63) \<le> v" and "v < 2 ^ 63"
  shows "int64 v = v"
proof -
  from assms have "0 \<le> v + 2 ^ 63" and "v + 2 ^ 63 < 2 ^ 64" by simp_all
  then have "(v + 2 ^ 63) mod 2 ^ 64 = v + 2 ^ 63" by (rule mod_pos_pos_trivial)
  then show ?thesis by (simp add: int64_def)
qed

lemma cdiv_nonneg: "0 \<le> a \<Longrightarrow> 0 < b \<Longrightarrow> cdiv a b = a div b"
  by (simp add: cdiv_def)

lemma pose_stamp_eq:
  "pose_stamp transform_msg =
     uint (stamp_sec transform_msg) * 1000000 + uint (stamp_nsec transform_msg) div 1000"
proof -
  let ?s = "uint (stamp_sec transform_msg)" and ?n = "uint (stamp_nsec transform_msg)"
  have s0: "0 \<le> ?s" and n0: "0 \<le> ?n"
    by simp_all
  have s1: "?s < 4294967296" and n1: "?n < 4294967296"
    using uint_lt2p [of "stamp_sec transform_msg"] uint_lt2p [of "stamp_nsec transform_msg"]
    by simp_all
  have d0: "0 \<le> ?n div 1000"
    using n0 by (simp add: pos_imp_zdiv_nonneg_iff)
  have "?n div 1000 \<le> ?n div 1"
    using n0 by (intro zdiv_mono2) simp_all
  then have d1: "?n div 1000 \<le> ?n" by simp
  have e: "(2 :: int) ^ 63 = 9223372036854775808" by simp
  have "- 9223372036854775808 \<le> ?s * 1000000" "?s * 1000000 < 9223372036854775808"
    using s0 s1 by linarith+
  then have p: "int64 (?s * 1000000) = ?s * 1000000"
    by (intro int64_in_range) (simp_all only: e)
  have "- 9223372036854775808 \<le> ?s * 1000000 + ?n div 1000"
    "?s * 1000000 + ?n div 1000 < 9223372036854775808"
    using s0 s1 n1 d0 d1 by linarith+
  then have q: "int64 (?s * 1000000 + ?n div 1000) = ?s * 1000000 + ?n div 1000"
    by (intro int64_in_range) (simp_all only: e)
  have c: "cdiv ?n 1000 = ?n div 1000"
    using n0 by (intro cdiv_nonneg) simp_all
  show ?thesis
    unfolding pose_stamp_def c p q ..
qed

lemma tform_loop_data:
  "odom_data (tform_loop view odom) =
     odom_data odom @ map (\<lambda>m. (pose_stamp m, pose_transform m)) view"
  by (induction view arbitrary: odom) (simp_all add: addTransformData_def)

text \<open>
  Claim C7. The time stamp of a pose message is \<open>sec * 1000000 + nsec div 1000\<close> on the
  unsigned values of the two members, with no wrap-around in \<^verbatim>\<open>long long\<close>; 5 seconds and
  500000000 nanoseconds give 5500000; and these are the stamps the bag loader hands to
  the accumulator, in the order of the messages.
\<close>

theorem pose_stamp_microseconds:
  "pose_stamp transform_msg =
     uint (stamp_sec transform_msg) * 1000000 + uint (stamp_nsec transform_msg) div 1000 \<and>
   pose_stamp (transform_msg\<lparr>stamp_sec := 5, stamp_nsec := 500000000\<rparr>) = 5500000 \<and>
   map fst (odom_data (snd (loadTformFromROSBag (Some bag) odom))) =
     map fst (odom_data odom) @
     map (\<lambda>m. uint (stamp_sec m) * 1000000 + uint (stamp_nsec m) div 1000) (view_PoseStamped bag)"
  by (simp add: pose_stamp_eq loadTformFromROSBag_def bag_open_def Let_def tform_loop_data
      comp_def)

section \<open>The CSV line parser and loader\<close>

lemma getline_terminated:
  assumes "delim \<notin> set line"
  shows "getline delim (stringstream (line @ delim # rest)) line0 = (stringstream rest, line)"
proof -
  from assms have "takeWhile (\<lambda>c. c \<noteq> delim) (line @ delim # rest) = line"
    by (subst takeWhile_append2) auto
  moreover from assms have "dropWhile (\<lambda>c. c \<noteq> delim) (line @ delim # rest) = delim # rest"
    by (subst dropWhile_append2) auto
  ultimately show ?thesis
    by (simp add: getline_def stringstream_def)
qed

lemma getline_unterminated:
  assumes "delim \<notin> set line"
  shows "getline delim (stringstream line) line0 =
           (\<lparr>eofbit = True, failbit = (line = []), buf = []\<rparr>, line)"
  using assms by (simp add: getline_def stringstream_def)

lemma peek_stringstream: "peek (stringstream s) = (case s of [] \<Rightarrow> None | c # _ \<Rightarrow> Some c)"
  by (simp add: peek_def stringstream_def)

lemma csv_loop_at_eof: "peek str = None \<Longrightarrow> csv_loop stamp0 T0 str odom = Inr odom"
  by (subst csv_loop.simps) simp

lemma csv_loop_step:
  "peek str \<noteq> None \<Longrightarrow>
   csv_loop stamp0 T0 str odom =
     (case getNextCSVTransform str stamp0 T0 of
        Inl (e, str', stamp, T) \<Rightarrow> Inl (e, odom)
      | Inr (ok, str', stamp, T) \<Rightarrow>
          csv_loop stamp0 T0 str' (if ok then addTransformData stamp T odom else odom))"
  by (subst csv_loop.simps) auto

lemma getNextCSVTransform_skips:
  assumes "getline (CHR 0x0A) str [] = (str', line)"
    and "is_comment line \<or> length (split_cells (stringstream line) [] []) < 9"
  shows "getNextCSVTransform str stamp T = Inr (False, str', stamp, T)"
  using assms by (auto simp: getNextCSVTransform_def Let_def)

lemma cells_to_transform_keeps_T:
  "cells_to_transform data stamp T = Inl (e, stamp', T') \<Longrightarrow> T' = T"
  by (auto simp: cells_to_transform_def Let_def split: sum.splits)

lemma cells_to_transform_isl:
  "isl (cells_to_transform data stamp T) = unparsable data"
  by (simp add: cells_to_transform_def unparsable_def Let_def split: sum.splits)

lemma cells_to_transform_raises:
  assumes "unparsable data"
  shows "\<exists>e stamp'. cells_to_transform data stamp T = Inl (e, stamp', T)"
proof -
  from assms have "isl (cells_to_transform data stamp T)"
    by (simp add: cells_to_transform_isl)
  then obtain e stamp' T' where r: "cells_to_transform data stamp T = Inl (e, stamp', T')"
    by (cases "cells_to_transform data stamp T") auto
  from cells_to_transform_keeps_T [OF r] r show ?thesis by blast
qed

lemma cells_to_transform_column_1:
  "cells_to_transform (data[1 := c]) stamp T = cells_to_transform data stamp T"
proof -
  have e: "data[1 := c] ! 0 = data ! 0" "data[1 := c] ! 2 = data ! 2"
    "data[1 := c] ! 3 = data ! 3" "data[1 := c] ! 4 = data ! 4" "data[1 := c] ! 5 = data ! 5"
    "data[1 := c] ! 6 = data ! 6" "data[1 := c] ! 7 = data ! 7" "data[1 := c] ! 8 = data ! 8"
    by simp_all
  show ?thesis
    unfolding cells_to_transform_def e ..
qed

lemmas number_defs =
  stoll_def stod_def take_sign_def isspace_def isdigit_def digits_value_def digit_value_def
  number_value_def has_hex_prefix_def decimal_value_def hexadecimal_value_def split_number_def
  isxdigit_def xdigit_value_def xdigits_value_def exponent_part_def scale_def to_double_def
  cdiv_def

lemma sample_line_cells:
  "split_cells (stringstream sample_line) [] [] =
     [''1000000'', ''0'', ''1.0'', ''2.0'', ''3.0'', ''1.0'', ''0.0'', ''0.0'', ''0.0'']"
  unfolding sample_line_def by code_simp

lemma sample_cells_to_transform:
  "cells_to_transform
     [''1000000'', ''0'', ''1.0'', ''2.0'', ''3.0'', ''1.0'', ''0.0'', ''0.0'', ''0.0''] stamp T =
   Inr (1000, sample_Transform)"
  by (simp add: cells_to_transform_def number_defs sample_Transform_def)

lemma sample_line_plain: "CHR 0x0A \<notin> set sample_line" "\<not> is_comment sample_line"
  by (simp_all add: sample_line_def is_comment_def)

lemma sample_line_parses:
  "getNextCSVTransform (stringstream (sample_line @ CHR 0x0A # rest)) stamp T =
     Inr (True, stringstream rest, 1000, sample_Transform) \<and>
   getNextCSVTransform (stringstream sample_line) stamp T =
     Inr (True, \<lparr>eofbit = True, failbit = False, buf = []\<rparr>, 1000, sample_Transform) \<and>
   cells_to_transform ((split_cells (stringstream sample_line) [] [])[1 := c]) stamp T =
     Inr (1000, sample_Transform)"
proof -
  have ne: "sample_line \<noteq> []" by (simp add: sample_line_def)
  have a: "getNextCSVTransform (stringstream (sample_line @ CHR 0x0A # rest)) stamp T =
     Inr (True, stringstream rest, 1000, sample_Transform)"
    by (simp add: getNextCSVTransform_def getline_terminated sample_line_plain
        sample_line_cells sample_cells_to_transform)
  have b: "getNextCSVTransform (stringstream sample_line) stamp T =
     Inr (True, \<lparr>eofbit = True, failbit = False, buf = []\<rparr>, 1000, sample_Transform)"
    by (simp add: getNextCSVTransform_def getline_unterminated sample_line_plain ne
        sample_line_cells sample_cells_to_transform)
  have c: "cells_to_transform ((split_cells (stringstream sample_line) [] [])[1 := c]) stamp T =
     Inr (1000, sample_Transform)"
    by (simp only: cells_to_transform_column_1 sample_line_cells sample_cells_to_transform)
  from a b c show ?thesis by (intro conjI)
qed

text \<open>
  Claim C6. The line \<^verbatim>\<open>1000000,0,1.0,2.0,3.0,1.0,0.0,0.0,0.0\<close>, followed by a newline and
  anything else or ending the input, parses: the call returns true with the time stamp
  1000 (the raw 1000000 divided by 1000), the translation (1, 2, 3) of columns 2 to 4 and
  the rotation w = 1, x = y = z = 0 of columns 5 to 8. Column 1 is not read: whatever
  replaces its cell, the conversion of the cells gives the same result.
\<close>

theorem csv_example_line_parses:
  "getNextCSVTransform
     (stringstream (''1000000,0,1.0,2.0,3.0,1.0,0.0,0.0,0.0'' @ CHR 0x0A # rest)) stamp T =
     Inr (True, stringstream rest, 1000,
          \<lparr>translation = \<lparr>t_x = Num 1, t_y = Num 2, t_z = Num 3\<rparr>,
           rotation = \<lparr>q_w = Num 1, q_x = Num 0, q_y = Num 0, q_z = Num 0\<rparr>\<rparr>) \<and>
   getNextCSVTransform (stringstream ''1000000,0,1.0,2.0,3.0,1.0,0.0,0.0,0.0'') stamp T =
     Inr (True, \<lparr>eofbit = True, failbit = False, buf = []\<rparr>, 1000,
          \<lparr>translation = \<lparr>t_x = Num 1, t_y = Num 2, t_z = Num 3\<rparr>,
           rotation = \<lparr>q_w = Num 1, q_x = Num 0, q_y = Num 0, q_z = Num 0\<rparr>\<rparr>) \<and>
   cells_to_transform
     ((split_cells (stringstream ''1000000,0,1.0,2.0,3.0,1.0,0.0,0.0,0.0'') [] [])[1 := c])
     stamp T =
     Inr (1000,
          \<lparr>translation = \<lparr>t_x = Num 1, t_y = Num 2, t_z = Num 3\<rparr>,
           rotation = \<lparr>q_w = Num 1, q_x = Num 0, q_y = Num 0, q_z = Num 0\<rparr>\<rparr>)"
  using sample_line_parses [of rest stamp T c, unfolded sample_line_def sample_Transform_def] .

text \<open>
  The splitting loop yields at most one cell more than the line has commas, so a line
  with fewer than 8 commas has fewer than 9 cells. What follows the last comma is a cell
  only when it is not empty.
\<close>

lemma count_list_split_at:
  assumes "d \<in> set s"
  shows "count_list s d = Suc (count_list (tl (dropWhile (\<lambda>c. c \<noteq> d) s)) d)"
  using assms by (induction s) auto

lemma split_cells_length:
  "length (split_cells str cell data) \<le>
     length data +
     (if eofbit str \<or> failbit str \<or> buf str = [] then 0
      else Suc (count_list (buf str) (CHR '','')))"
proof (induction str cell data rule: split_cells.induct)
  case (1 line_stream cell data)
  show ?case
  proof (cases "eofbit line_stream \<or> failbit line_stream \<or> buf line_stream = []")
    case True
    then show ?thesis
      by (subst split_cells.simps) (auto simp: getline_def)
  next
    case good: False
    show ?thesis
    proof (cases "CHR '','' \<in> set (buf line_stream)")
      case True
      let ?s' = "line_stream\<lparr>buf := tl (dropWhile (\<lambda>c. c \<noteq> CHR '','') (buf line_stream))\<rparr>"
      let ?c' = "takeWhile (\<lambda>c. c \<noteq> CHR '','') (buf line_stream)"
      have g: "getline (CHR '','') line_stream cell = (?s', ?c')"
        using good True by (simp add: getline_def)
      have nf: "\<not> failbit ?s'" using good by simp
      have "length (split_cells ?s' ?c' (data @ [?c'])) \<le>
          length (data @ [?c']) +
          (if eofbit ?s' \<or> failbit ?s' \<or> buf ?s' = [] then 0
           else Suc (count_list (buf ?s') (CHR '','')))"
        using "1.IH" [OF g [symmetric] nf] .
      also have "\<dots> \<le> length data + Suc (count_list (buf line_stream) (CHR '',''))"
        using count_list_split_at [OF True] by simp
      finally show ?thesis
        using good g nf by (subst split_cells.simps) simp
    next
      case False
      let ?s' = "line_stream\<lparr>eofbit := True, buf := []\<rparr>"
      have g: "getline (CHR '','') line_stream cell = (?s', buf line_stream)"
        using good False by (simp add: getline_def)
      have nf: "\<not> failbit ?s'" using good by simp
      have r: "split_cells ?s' (buf line_stream) (data @ [buf line_stream]) = data @ [buf line_stream]"
        by (subst split_cells.simps) (simp add: getline_def)
      show ?thesis
        using good g nf r by (subst split_cells.simps) simp
    qed
  qed
qed

lemma few_commas_few_cells:
  "count_list line (CHR '','') < 8 \<Longrightarrow> length (split_cells (stringstream line) [] []) < 9"
  using split_cells_length [of "stringstream line" "[]" "[]"]
  by (simp add: stringstream_def split: if_splits)

text \<open>
  The cells are the fields, without the last field when that is empty.
\<close>

lemma spec_fields_nonempty: "spec_fields s \<noteq> []"
  by (induction s) (auto split: list.splits)

lemma spec_fields_no_comma: "CHR '','' \<notin> set s \<Longrightarrow> spec_fields s = [s]"
  by (induction s) auto

lemma spec_fields_append:
  "CHR '','' \<notin> set pre \<Longrightarrow> spec_fields (pre @ CHR '','' # rest) = pre # spec_fields rest"
  by (induction pre) auto

lemma length_spec_fields: "length (spec_fields s) = Suc (count_list s (CHR '',''))"
  by (induction s) (auto split: list.splits simp: spec_fields_nonempty)

lemma split_at_first_comma:
  assumes "CHR '','' \<in> set s"
  shows "s = takeWhile (\<lambda>c. c \<noteq> CHR '','') s @ CHR '','' # tl (dropWhile (\<lambda>c. c \<noteq> CHR '','') s)"
proof -
  from assms have "dropWhile (\<lambda>c. c \<noteq> CHR '','') s \<noteq> []"
    by (simp add: dropWhile_eq_Nil_conv)
  moreover then have "hd (dropWhile (\<lambda>c. c \<noteq> CHR '','') s) = CHR '',''"
    using hd_dropWhile [of "\<lambda>c. c \<noteq> CHR '',''" s] by simp
  ultimately have "dropWhile (\<lambda>c. c \<noteq> CHR '','') s =
      CHR '','' # tl (dropWhile (\<lambda>c. c \<noteq> CHR '','') s)"
    by (metis list.collapse)
  then show ?thesis
    using takeWhile_dropWhile_id [of "\<lambda>c. c \<noteq> CHR '',''" s] by simp
qed

lemma split_cells_fields:
  "split_cells (stringstream s) cell data =
     data @ (if last (spec_fields s) = [] then butlast (spec_fields s) else spec_fields s)"
proof (induction "length s" arbitrary: s cell data rule: less_induct)
  case less
  show ?case
  proof (cases "s = []")
    case True
    then show ?thesis
      by (subst split_cells.simps) (simp add: getline_def stringstream_def)
  next
    case ne: False
    show ?thesis
    proof (cases "CHR '','' \<in> set s")
      case True
      let ?pre = "takeWhile (\<lambda>c. c \<noteq> CHR '','') s"
      let ?rest = "tl (dropWhile (\<lambda>c. c \<noteq> CHR '','') s)"
      have s: "s = ?pre @ CHR '','' # ?rest"
        using True by (rule split_at_first_comma)
      have pre: "CHR '','' \<notin> set ?pre"
        by (auto dest: set_takeWhileD)
      have len: "length ?rest < length s"
        by (subst (2) s) simp
      have g: "getline (CHR '','') (stringstream s) cell = (stringstream ?rest, ?pre)"
        using True ne by (simp add: getline_def stringstream_def)
      have f: "spec_fields s = ?pre # spec_fields ?rest"
        by (subst s) (rule spec_fields_append [OF pre])
      have fb: "\<not> failbit (stringstream ?rest)"
        by (simp add: stringstream_def)
      have step: "split_cells (stringstream s) cell data =
          split_cells (stringstream ?rest) ?pre (data @ [?pre])"
        by (subst split_cells.simps) (simp add: g fb)
      show ?thesis
        unfolding step less [OF len] f
        by (simp add: spec_fields_nonempty)
    next
      case False
      have g: "getline (CHR '','') (stringstream s) cell =
          (\<lparr>eofbit = True, failbit = False, buf = []\<rparr>, s)"
        using False ne by (simp add: getline_def stringstream_def)
      have stop: "split_cells \<lparr>eofbit = True, failbit = False, buf = []\<rparr> s (data @ [s]) = data @ [s]"
        by (subst split_cells.simps) (simp add: getline_def)
      have "split_cells (stringstream s) cell data = data @ [s]"
        by (subst split_cells.simps) (simp add: g stop)
      with False ne show ?thesis
        by (simp add: spec_fields_no_comma)
    qed
  qed
qed

lemma cells_are_fields_with_last_nonempty:
  "last (spec_fields line) \<noteq> [] \<Longrightarrow> split_cells (stringstream line) [] [] = spec_fields line"
  "last (spec_fields line) = [] \<Longrightarrow>
     split_cells (stringstream line) [] [] = butlast (spec_fields line)"
  by (simp_all add: split_cells_fields)

lemma no_number_throws:
  assumes "no_number cell"
  shows "stod cell = Inl invalid_argument" and "stoll cell = Inl invalid_argument"
proof -
  obtain neg s where t: "take_sign (dropWhile isspace cell) = (neg, s)"
    by (cases "take_sign (dropWhile isspace cell)")
  have "takeWhile isdigit s = [] \<and> \<not> starts_with [''iI'', ''nN'', ''fF''] s \<and>
        \<not> starts_with [''nN'', ''aA'', ''nN''] s \<and> \<not> has_hex_prefix s \<and>
        decimal_value s = None"
  proof (cases s)
    case Nil
    then show ?thesis
      by (simp add: has_hex_prefix_def decimal_value_def split_number_def)
  next
    case (Cons c cs)
    with assms t have c: "\<not> isdigit c" "c \<noteq> CHR ''.''" "c \<notin> set ''iInN''"
      by (simp_all add: no_number_def)
    from c(1) have z: "c \<noteq> CHR ''0''"
      by (auto simp: isdigit_def)
    from c z show ?thesis
      by (simp add: Cons has_hex_prefix_def decimal_value_def split_number_def
          split: list.splits)
  qed
  then show "stod cell = Inl invalid_argument" and "stoll cell = Inl invalid_argument"
    by (simp_all add: stod_def stoll_def t number_value_def)
qed

lemma no_number_unparsable:
  assumes "i \<in> {col_TIME, col_X, col_Y, col_Z, col_RW, col_RX, col_RY, col_RZ}"
    and "no_number (data ! i)"
  shows "unparsable data"
  using no_number_throws [OF assms(2)] assms(1)
  by (auto simp: unparsable_def)

text \<open>
  Claim C8. A line that begins with \<^verbatim>\<open>#\<close>, or that the splitting loop cuts into fewer
  than 9 cells, makes \<^verbatim>\<open>getNextCSVTransform\<close> return false, with no exception, whether a
  newline or the end of the input closes it; and the loader passes over it: the file with
  the line loads exactly as the file without it, and a file that ends in it adds nothing
  more.
\<close>

theorem skipped_line_adds_nothing:
  assumes "CHR 0x0A \<notin> set line"
    and "is_comment line \<or> length (split_cells (stringstream line) [] []) < 9"
  shows "getNextCSVTransform (stringstream (line @ CHR 0x0A # rest)) stamp T =
           Inr (False, stringstream rest, stamp, T) \<and>
         getNextCSVTransform (stringstream line) stamp T =
           Inr (False, \<lparr>eofbit = True, failbit = (line = []), buf = []\<rparr>, stamp, T) \<and>
         csv_loop stamp0 T0 (stringstream (line @ CHR 0x0A # rest)) odom =
           csv_loop stamp0 T0 (stringstream rest) odom \<and>
         csv_loop stamp0 T0 (stringstream line) odom = Inr odom \<and>
         loadTformFromMaplabCSV stamp0 T0 (Some (line @ CHR 0x0A # rest)) odom =
           loadTformFromMaplabCSV stamp0 T0 (Some rest) odom"
proof -
  have a: "getNextCSVTransform (stringstream (line @ CHR 0x0A # rest)) stamp T =
           Inr (False, stringstream rest, stamp, T)" for stamp T
    using getline_terminated [OF assms(1)] assms(2) by (rule getNextCSVTransform_skips)
  have b: "getNextCSVTransform (stringstream line) stamp T =
           Inr (False, \<lparr>eofbit = True, failbit = (line = []), buf = []\<rparr>, stamp, T)" for stamp T
    using getline_unterminated [OF assms(1)] assms(2) by (rule getNextCSVTransform_skips)
  have pk: "peek (stringstream (line @ CHR 0x0A # rest)) \<noteq> None"
    by (cases line) (simp_all add: peek_stringstream)
  have c: "csv_loop stamp0 T0 (stringstream (line @ CHR 0x0A # rest)) odom =
           csv_loop stamp0 T0 (stringstream rest) odom"
    by (simp add: csv_loop_step [OF pk] a)
  have d: "csv_loop stamp0 T0 (stringstream line) odom = Inr odom"
  proof (cases "line = []")
    case True
    then show ?thesis by (simp add: csv_loop_at_eof peek_stringstream)
  next
    case False
    then have "peek (stringstream line) \<noteq> None"
      by (cases line) (simp_all add: peek_stringstream)
    then show ?thesis
      by (simp add: csv_loop_step b csv_loop_at_eof peek_def)
  qed
  have e: "loadTformFromMaplabCSV stamp0 T0 (Some (line @ CHR 0x0A # rest)) odom =
           loadTformFromMaplabCSV stamp0 T0 (Some rest) odom"
    by (simp add: loadTformFromMaplabCSV_def ifstream_def c)
  from a b c d e show ?thesis by (intro conjI)
qed

lemma short_line_cells:
  "split_cells (stringstream ''1,2,3,4,5'') [] [] = [''1'', ''2'', ''3'', ''4'', ''5'']"
  by code_simp

theorem skipped_line_adds_nothing_witness:
  "CHR 0x0A \<notin> set ''1,2,3,4,5'' \<and>
   length (split_cells (stringstream ''1,2,3,4,5'') [] []) = 5 \<and>
   getNextCSVTransform (stringstream (''1,2,3,4,5'' @ CHR 0x0A # sample_line)) 7 identity_Transform =
     Inr (False, stringstream sample_line, 7, identity_Transform) \<and>
   loadTformFromMaplabCSV 7 identity_Transform (Some (''1,2,3,4,5'' @ CHR 0x0A # sample_line)) empty_Odom =
     loadTformFromMaplabCSV 7 identity_Transform (Some sample_line) empty_Odom"
proof -
  have h1: "CHR 0x0A \<notin> set ''1,2,3,4,5''" by simp
  have n: "length (split_cells (stringstream ''1,2,3,4,5'') [] []) = 5"
    by (simp add: short_line_cells)
  then have h2: "is_comment ''1,2,3,4,5'' \<or> length (split_cells (stringstream ''1,2,3,4,5'') [] []) < 9"
    by simp
  from skipped_line_adds_nothing [OF h1 h2, of sample_line 7 identity_Transform 7 identity_Transform empty_Odom]
    h1 n show ?thesis by (intro conjI) blast+
qed

text \<open>
  Claim C9, as the code has it. A line that is no comment, that the splitting loop cuts
  into at least 9 cells (its fields, not counting an empty last one), and one of whose
  required numeric columns makes \<^verbatim>\<open>stoll\<close> or \<^verbatim>\<open>stod\<close> throw, makes
  \<^verbatim>\<open>getNextCSVTransform\<close> throw: the call neither returns a sample nor returns false. The
  loader does not catch the exception.
\<close>

theorem unparsable_number_raises:
  assumes "CHR 0x0A \<notin> set line"
    and "\<not> is_comment line"
    and "9 \<le> length (split_cells (stringstream line) [] [])"
    and "unparsable (split_cells (stringstream line) [] [])"
  shows "(\<exists>e stamp'. getNextCSVTransform (stringstream (line @ CHR 0x0A # rest)) stamp T =
            Inl (e, stringstream rest, stamp', T)) \<and>
         (\<exists>e stamp'. getNextCSVTransform (stringstream line) stamp T =
            Inl (e, \<lparr>eofbit = True, failbit = (line = []), buf = []\<rparr>, stamp', T)) \<and>
         (\<exists>e. loadTformFromMaplabCSV stamp0 T0 (Some (line @ CHR 0x0A # rest)) odom = Inl (e, odom))"
proof -
  let ?data = "split_cells (stringstream line) [] []"
  have a: "\<exists>e stamp'. getNextCSVTransform (stringstream (line @ CHR 0x0A # rest)) stamp T =
            Inl (e, stringstream rest, stamp', T)" for stamp T
    using cells_to_transform_raises [OF assms(4), of stamp T] assms(2,3)
    by (auto simp: getNextCSVTransform_def getline_terminated [OF assms(1)])
  have b: "\<exists>e stamp'. getNextCSVTransform (stringstream line) stamp T =
            Inl (e, \<lparr>eofbit = True, failbit = (line = []), buf = []\<rparr>, stamp', T)"
    using cells_to_transform_raises [OF assms(4), of stamp T] assms(2,3)
    by (auto simp: getNextCSVTransform_def getline_unterminated [OF assms(1)])
  have pk: "peek (stringstream (line @ CHR 0x0A # rest)) \<noteq> None"
    by (cases line) (simp_all add: peek_stringstream)
  from a [of stamp0 T0] obtain e stamp' where
    "getNextCSVTransform (stringstream (line @ CHR 0x0A # rest)) stamp0 T0 =
       Inl (e, stringstream rest, stamp', T0)" by blast
  then have "csv_loop stamp0 T0 (stringstream (line @ CHR 0x0A # rest)) odom = Inl (e, odom)"
    by (simp add: csv_loop_step [OF pk])
  then have c: "\<exists>e. loadTformFromMaplabCSV stamp0 T0 (Some (line @ CHR 0x0A # rest)) odom =
      Inl (e, odom)"
    by (simp add: loadTformFromMaplabCSV_def ifstream_def)
  from a b c show ?thesis by (intro conjI)
qed

lemma bad_line_cells:
  "split_cells (stringstream ''1000,0,x,0,0,0,0,0,0'') [] [] =
     [''1000'', ''0'', ''x'', ''0'', ''0'', ''0'', ''0'', ''0'', ''0'']"
  by code_simp

theorem unparsable_number_raises_witness:
  "CHR 0x0A \<notin> set ''1000,0,x,0,0,0,0,0,0'' \<and>
   \<not> is_comment ''1000,0,x,0,0,0,0,0,0'' \<and>
   length (split_cells (stringstream ''1000,0,x,0,0,0,0,0,0'') [] []) = 9 \<and>
   unparsable (split_cells (stringstream ''1000,0,x,0,0,0,0,0,0'') [] []) \<and>
   isl (getNextCSVTransform (stringstream ''1000,0,x,0,0,0,0,0,0'') 7 identity_Transform) \<and>
   isl (loadTformFromMaplabCSV 7 identity_Transform
          (Some (''1000,0,x,0,0,0,0,0,0'' @ CHR 0x0A # sample_line)) empty_Odom)"
proof -
  let ?l = "''1000,0,x,0,0,0,0,0,0''"
  have h1: "CHR 0x0A \<notin> set ?l" by simp
  have h2: "\<not> is_comment ?l" by (simp add: is_comment_def)
  have n: "length (split_cells (stringstream ?l) [] []) = 9"
    by (simp add: bad_line_cells)
  then have h3: "9 \<le> length (split_cells (stringstream ?l) [] [])" by simp
  have h4: "unparsable (split_cells (stringstream ?l) [] [])"
    by (simp add: bad_line_cells unparsable_def number_defs)
  from unparsable_number_raises [OF h1 h2 h3 h4, of sample_line 7 identity_Transform 7 identity_Transform empty_Odom]
  have "isl (getNextCSVTransform (stringstream ?l) 7 identity_Transform)"
    and "isl (loadTformFromMaplabCSV 7 identity_Transform (Some (?l @ CHR 0x0A # sample_line)) empty_Odom)"
    by auto
  with h1 h2 n h4 show ?thesis by (intro conjI)
qed

lemma empty_ninth_field_cells:
  "split_cells (stringstream ''1000,0,1,2,3,1,0,0,'') [] [] =
     [''1000'', ''0'', ''1'', ''2'', ''3'', ''1'', ''0'', ''0'']"
  by code_simp

text \<open>
  Claim C9 as stated fails on a line whose ninth field is empty: it has 9 fields, the
  rotation column z holds no number, and the call returns false without an exception,
  since the empty text behind the last comma is no cell.
\<close>

theorem empty_ninth_field_is_skipped:
  "length (spec_fields ''1000,0,1,2,3,1,0,0,'') = 9 \<and>
   spec_fields ''1000,0,1,2,3,1,0,0,'' ! col_RZ = [] \<and>
   unparsable (spec_fields ''1000,0,1,2,3,1,0,0,'') \<and>
   \<not> is_comment ''1000,0,1,2,3,1,0,0,'' \<and>
   getNextCSVTransform (stringstream ''1000,0,1,2,3,1,0,0,'') 7 identity_Transform =
     Inr (False, \<lparr>eofbit = True, failbit = False, buf = []\<rparr>, 7, identity_Transform) \<and>
   getNextCSVTransform (stringstream (''1000,0,1,2,3,1,0,0,'' @ CHR 0x0A # sample_line)) 7
       identity_Transform =
     Inr (False, stringstream sample_line, 7, identity_Transform)"
proof -
  have f: "spec_fields ''1000,0,1,2,3,1,0,0,'' =
      [''1000'', ''0'', ''1'', ''2'', ''3'', ''1'', ''0'', ''0'', []]"
    by simp
  have e: "stod [] = Inl invalid_argument"
    by (rule no_number_throws) (simp add: no_number_def take_sign_def)
  have u: "unparsable (spec_fields ''1000,0,1,2,3,1,0,0,'')"
    by (simp add: f unparsable_def e)
  have n: "CHR 0x0A \<notin> set ''1000,0,1,2,3,1,0,0,''"
    by simp
  have c: "\<not> is_comment ''1000,0,1,2,3,1,0,0,''"
    by (simp add: is_comment_def)
  have k: "is_comment ''1000,0,1,2,3,1,0,0,'' \<or>
      length (split_cells (stringstream ''1000,0,1,2,3,1,0,0,'') [] []) < 9"
    by (simp add: empty_ninth_field_cells)
  have a: "getNextCSVTransform (stringstream ''1000,0,1,2,3,1,0,0,'') 7 identity_Transform =
     Inr (False, \<lparr>eofbit = True, failbit = (''1000,0,1,2,3,1,0,0,'' = []), buf = []\<rparr>, 7,
          identity_Transform)"
    using getline_unterminated [OF n] k by (rule getNextCSVTransform_skips)
  have b: "getNextCSVTransform (stringstream (''1000,0,1,2,3,1,0,0,'' @ CHR 0x0A # sample_line)) 7
       identity_Transform = Inr (False, stringstream sample_line, 7, identity_Transform)"
    using getline_terminated [OF n] k by (rule getNextCSVTransform_skips)
  from f u c a b show ?thesis
    by simp
qed

text \<open>
  The conversion at the ends of the range of \<^verbatim>\<open>double\<close>, at a hexadecimal cell and at a
  cell with text behind the number.
\<close>

lemma stod_at_the_range_ends:
  "stod ''1.7976931348623158e308'' = Inr (Num (17976931348623158 * 10 ^ 292))"
  "stod ''1e-400'' = Inl out_of_range"
  "stod ''0x10'' = Inr (Num 16)"
  "stod ''12abc'' = Inr (Num 12)"
proof -
  define big :: real where "big = 17976931348623158 * 10 ^ 292"
  define tiny :: real where "tiny = 1 / 10 ^ 400"
  have v: "number_value ''1.7976931348623158e308'' = Some big"
    "number_value ''1e-400'' = Some tiny"
    unfolding big_def tiny_def
    by (simp_all add: number_value_def has_hex_prefix_def decimal_value_def split_number_def
        isdigit_def digits_value_def digit_value_def exponent_part_def scale_def take_sign_def)
  have r: "to_double False big = Inr (Num big)"
    unfolding big_def by (simp add: to_double_def)
  have "0 < tiny * 2 ^ 1074" and "tiny * 2 ^ 1074 < 1"
    unfolding tiny_def by simp_all
  then have "frac (tiny * 2 ^ 1074) = tiny * 2 ^ 1074"
    by (simp add: frac_eq)
  then have f: "frac (tiny * 2 ^ 1074) \<noteq> 0"
    unfolding tiny_def by simp
  have t: "tiny < 1 / 2 ^ 1022 - 1 / 2 ^ 1076" and z: "tiny \<noteq> 0"
    and b: "\<not> (2 ^ 1024 - 2 ^ 970 \<le> tiny)"
    unfolding tiny_def by simp_all
  have u: "to_double False tiny = Inl out_of_range"
    unfolding to_double_def using f t z b by (simp only: if_False if_True simp_thms)
  have s: "take_sign (dropWhile isspace ''1.7976931348623158e308'') = (False, ''1.7976931348623158e308'')"
    "take_sign (dropWhile isspace ''1e-400'') = (False, ''1e-400'')"
    by (simp_all add: take_sign_def isspace_def)
  have "stod ''1.7976931348623158e308'' = Inr (Num big)"
    unfolding stod_def s by (simp add: v r)
  then show "stod ''1.7976931348623158e308'' = Inr (Num (17976931348623158 * 10 ^ 292))"
    unfolding big_def .
  show "stod ''1e-400'' = Inl out_of_range"
    unfolding stod_def s by (simp add: v u)
  show "stod ''0x10'' = Inr (Num 16)" and "stod ''12abc'' = Inr (Num 12)"
    by (simp_all add: number_defs)
qed

lemma cells_to_transform_raise_state:
  assumes "cells_to_transform data stamp T = Inl (e, stamp', T')"
  shows "T' = T \<and> stamp' = (case stoll (data ! col_TIME) of Inl _ \<Rightarrow> stamp | Inr t \<Rightarrow> cdiv t 1000)"
  using assms by (auto simp: cells_to_transform_def Let_def split: sum.splits)

text \<open>
  Claim C10, as the code has it. When \<^verbatim>\<open>getNextCSVTransform\<close> returns false, the two
  output locations hold what they held before. When it throws, the transform is still
  untouched, but the time stamp is the converted one as soon as column 0 converted: it is
  assigned before the pose columns are read.
\<close>

theorem outputs_after_false_or_raise:
  "(getNextCSVTransform str stamp T = Inr (False, str', stamp', T') \<longrightarrow>
      stamp' = stamp \<and> T' = T) \<and>
   (getNextCSVTransform str stamp T = Inl (e, str', stamp', T') \<longrightarrow>
      T' = T \<and>
      stamp' =
        (case stoll (split_cells (stringstream (snd (getline (CHR 0x0A) str []))) [] [] ! col_TIME) of
           Inl _ \<Rightarrow> stamp
         | Inr t \<Rightarrow> cdiv t 1000))"
proof (intro conjI impI)
  assume "getNextCSVTransform str stamp T = Inr (False, str', stamp', T')"
  then show "stamp' = stamp" and "T' = T"
    by (auto simp: getNextCSVTransform_def Let_def split: prod.splits if_splits sum.splits)
next
  assume r: "getNextCSVTransform str stamp T = Inl (e, str', stamp', T')"
  let ?data = "split_cells (stringstream (snd (getline (CHR 0x0A) str []))) [] []"
  from r have "cells_to_transform ?data stamp T = Inl (e, stamp', T')"
    by (auto simp: getNextCSVTransform_def Let_def split: prod.splits if_splits sum.splits)
  from cells_to_transform_raise_state [OF this]
  show "T' = T" and "stamp' = (case stoll (?data ! col_TIME) of Inl _ \<Rightarrow> stamp | Inr t \<Rightarrow> cdiv t 1000)"
    by simp_all
qed

theorem outputs_after_false_or_raise_witness:
  "getNextCSVTransform (stringstream ''# t, x, y'') 7 identity_Transform =
     Inr (False, \<lparr>eofbit = True, failbit = False, buf = []\<rparr>, 7, identity_Transform)"
proof -
  have "\<exists>str' stamp' T'. getNextCSVTransform (stringstream ''# t, x, y'') 7 identity_Transform =
     Inr (False, str', stamp', T') \<and> str' = \<lparr>eofbit = True, failbit = False, buf = []\<rparr>"
    by (simp add: getNextCSVTransform_def getline_unterminated is_comment_def)
  then obtain stamp' T' where r: "getNextCSVTransform (stringstream ''# t, x, y'') 7 identity_Transform =
     Inr (False, \<lparr>eofbit = True, failbit = False, buf = []\<rparr>, stamp', T')" by blast
  with outputs_after_false_or_raise
    [of "stringstream ''# t, x, y''" 7 identity_Transform "\<lparr>eofbit = True, failbit = False, buf = []\<rparr>" stamp' T']
  have "stamp' = 7 \<and> T' = identity_Transform" by blast
  with r show ?thesis by simp
qed

lemma raising_line_cells:
  "split_cells (stringstream ''5000,0,oops,0,0,0,0,0,0'') [] [] =
     [''5000'', ''0'', ''oops'', ''0'', ''0'', ''0'', ''0'', ''0'', ''0'']"
  by code_simp

text \<open>
  Claim C10 as stated fails where a pose column does not convert: the call below does not
  succeed, it throws, and yet the time stamp location has changed from 7 to 5.
\<close>

theorem stamp_written_before_raise:
  "getNextCSVTransform (stringstream ''5000,0,oops,0,0,0,0,0,0'') 7 identity_Transform =
     Inl (invalid_argument, \<lparr>eofbit = True, failbit = False, buf = []\<rparr>, 5, identity_Transform) \<and>
   (5 :: Timestamp) \<noteq> 7"
  by (simp add: getNextCSVTransform_def getline_unterminated is_comment_def raising_line_cells
      cells_to_transform_def number_defs)

text \<open>
  Claim C4 at the CSV loader: an empty file, and a file with a comment line only, open,
  are read to the end and give no sample, and the load returns true on the still empty
  accumulator. The two bag loaders return false there (\<open>bag_loads_fail_without_samples\<close>
  below).
\<close>

theorem csv_load_without_samples_returns_true:
  "loadTformFromMaplabCSV stamp0 T0 (Some []) empty_Odom = Inr (True, empty_Odom) \<and>
   loadTformFromMaplabCSV stamp0 T0 (Some ''# timestamp, x, y, z'') empty_Odom =
     Inr (True, empty_Odom) \<and>
   odom_empty empty_Odom"
proof -
  have a: "csv_loop stamp0 T0 (stringstream []) empty_Odom = Inr empty_Odom"
    by (simp add: csv_loop_at_eof peek_stringstream)
  have pk: "peek (stringstream ''# timestamp, x, y, z'') \<noteq> None"
    by (simp add: peek_stringstream)
  have g: "getNextCSVTransform (stringstream ''# timestamp, x, y, z'') stamp0 T0 =
      Inr (False, \<lparr>eofbit = True, failbit = False, buf = []\<rparr>, stamp0, T0)"
    by (simp add: getNextCSVTransform_def getline_unterminated is_comment_def)
  have b: "csv_loop stamp0 T0 (stringstream ''# timestamp, x, y, z'') empty_Odom = Inr empty_Odom"
    by (simp add: csv_loop_step [OF pk] g csv_loop_at_eof peek_def)
  from a b show ?thesis
    by (simp add: loadTformFromMaplabCSV_def ifstream_def odom_empty_def empty_Odom_def)
qed

lemma bag_loads_fail_without_samples:
  "view_PoseStamped bag = [] \<Longrightarrow> odom_empty odom \<Longrightarrow>
     loadTformFromROSBag (Some bag) odom = (False, odom)"
  "getTotalPoints (pointcloud_loop config scan_config (view_PointCloud2 bag) lidar) = 0 \<Longrightarrow>
     fst (loadPointcloudFromROSBag config (Some bag) scan_config lidar) = False"
  "view_PointCloud2 bag = [] \<Longrightarrow> getTotalPoints lidar = 0 \<Longrightarrow>
     loadPointcloudFromROSBag config (Some bag) scan_config lidar = (False, lidar)"
  by (simp_all add: loadTformFromROSBag_def loadPointcloudFromROSBag_def bag_open_def Let_def)

text \<open>
  Claim C5 at the CSV loader: on a path that cannot be opened the load adds nothing and
  returns true. The two bag loaders return false there (\<open>bag_loads_fail_when_not_opened\<close>
  below).
\<close>

theorem csv_load_of_unopened_file_returns_true:
  "loadTformFromMaplabCSV stamp0 T0 None odom = Inr (True, odom)"
  by (simp add: loadTformFromMaplabCSV_def ifstream_def csv_loop_at_eof peek_def)

lemma bag_loads_fail_when_not_opened:
  "loadPointcloudFromROSBag config None scan_config lidar = (False, lidar)"
  "loadTformFromROSBag None odom = (False, odom)"
  by (simp_all add: loadPointcloudFromROSBag_def loadTformFromROSBag_def bag_open_def)

end
